theory Spec2Isabelle
  imports Main "HOL-Library.Word" "HOL-Library.Sublist"
begin

section \<open>Paths: the parts of Go's \<open>path\<close> and \<open>strings\<close> packages the module calls\<close>

text \<open>
  A path is a byte string. \<open>split_slash\<close> cuts a path at every slash; the result always
  has at least one (possibly empty) element.
\<close>

fun split_slash :: "string \<Rightarrow> string list" where
  "split_slash [] = [[]]"
| "split_slash (c # cs) =
     (if c = CHR ''/'' then [] # split_slash cs
      else (case split_slash cs of
              [] \<Rightarrow> [[c]]
            | x # xs \<Rightarrow> (c # x) # xs))"

fun join_slash :: "string list \<Rightarrow> string" where
  "join_slash [] = []"
| "join_slash [x] = x"
| "join_slash (x # y # ys) = x @ ''/'' @ join_slash (y # ys)"

text \<open>
  One step of the lexical clean-up of \<open>path.Clean\<close>, on a stack of path elements kept in
  reverse order: empty elements and \<open>.\<close> are dropped, \<open>..\<close> removes the element before it,
  is dropped at the start of a rooted path, and is kept at the start of a relative one.
\<close>

definition clean_step :: "bool \<Rightarrow> string \<Rightarrow> string list \<Rightarrow> string list" where
  "clean_step rooted c stack =
     (if c = [] \<or> c = ''.'' then stack
      else if c = ''..'' then
        (case stack of
           [] \<Rightarrow> if rooted then [] else [''..'']
         | prev # rest \<Rightarrow> if prev = ''..'' then ''..'' # stack else rest)
      else c # stack)"

definition is_rooted :: "string \<Rightarrow> bool" where
  "is_rooted p = (case p of [] \<Rightarrow> False | c # _ \<Rightarrow> c = CHR ''/'')"

text \<open>\<open>path.Clean\<close>: the shortest path equivalent to \<open>p\<close> by purely lexical processing.\<close>

definition Clean :: "string \<Rightarrow> string" where
  "Clean p =
     (let out = (if is_rooted p then ''/'' else []) @
                join_slash (rev (fold (clean_step (is_rooted p)) (split_slash p) []))
      in if out = [] then ''.'' else out)"

text \<open>
  \<open>path.Join\<close>: empty elements are ignored, the rest is joined with slashes and cleaned;
  when every element is empty the result is the empty string.
\<close>

definition Join :: "string list \<Rightarrow> string" where
  "Join elem =
     (case filter (\<lambda>e. e \<noteq> []) elem of
        [] \<Rightarrow> []
      | es \<Rightarrow> Clean (join_slash es))"

text \<open>\<open>strings.HasSuffix\<close> and \<open>strings.TrimSuffix\<close>.\<close>

definition HasSuffix :: "string \<Rightarrow> string \<Rightarrow> bool" where
  "HasSuffix s suf = (length suf \<le> length s \<and> drop (length s - length suf) s = suf)"

definition TrimSuffix :: "string \<Rightarrow> string \<Rightarrow> string" where
  "TrimSuffix s suf = (if HasSuffix s suf then take (length s - length suf) s else s)"

section \<open>The file system the module runs against\<close>

text \<open>
  The module only talks to the operating system through \<open>os.Open\<close>, \<open>File.Readdir\<close>,
  \<open>os.Mkdir\<close>, \<open>os.Create\<close>, \<open>io.Copy\<close> and the template engine. The file system is an
  association list from resolved paths (lists of names below the root, in directory
  order) to nodes. The working directory is the root, the process owns every node and is
  not privileged, so the owner bits of a node's mode decide what it may do. There are no
  links. Every call is appended to a log, so that the order of calls can be stated.
\<close>

type_synonym FileMode = "32 word"

datatype node = Dir FileMode | File FileMode string

datatype error =
    ENOENT | EEXIST | ENOTEMPTY | EACCES | ENOTDIR | EISDIR | EBADF
  | ParseError string | ExecError string

datatype event =
    EvOpen string
  | EvReaddir "string list"
  | EvMkdir string FileMode
  | EvCreate string
  | EvCopy "string list" "string list"
  | EvParseFiles string
  | EvExecute "string list"

record world =
  files :: "(string list \<times> node) list"
  log :: "event list"

record FileInfo =
  Name :: string
  IsDir :: bool
  Size :: nat
  Mode :: FileMode

definition resolve :: "string \<Rightarrow> string list" where
  "resolve p = rev (fold (clean_step True) (split_slash p) [])"

definition lookup :: "world \<Rightarrow> string list \<Rightarrow> node option" where
  "lookup w k = map_of (files w) k"

definition readable :: "FileMode \<Rightarrow> bool" where
  "readable m = bit m 8"

definition writable :: "FileMode \<Rightarrow> bool" where
  "writable m = bit m 7"

fun store :: "string list \<Rightarrow> node \<Rightarrow> (string list \<times> node) list \<Rightarrow> (string list \<times> node) list" where
  "store k v [] = [(k, v)]"
| "store k v ((k', v') # rest) =
     (if k' = k then (k, v) # rest else (k', v') # store k v rest)"

definition log_call :: "event \<Rightarrow> world \<Rightarrow> world" where
  "log_call ev w = w\<lparr>log := log w @ [ev]\<rparr>"

definition put :: "string list \<Rightarrow> node \<Rightarrow> world \<Rightarrow> world" where
  "put k v w = w\<lparr>files := store k v (files w)\<rparr>"

text \<open>The bytes of the regular file a path names, if it names one.\<close>

definition file_bytes :: "world \<Rightarrow> string \<Rightarrow> string option" where
  "file_bytes w p =
     (case lookup w (resolve p) of Some (File m c) \<Rightarrow> Some c | _ \<Rightarrow> None)"

definition is_dir :: "world \<Rightarrow> string \<Rightarrow> bool" where
  "is_dir w p = (case lookup w (resolve p) of Some (Dir m) \<Rightarrow> True | _ \<Rightarrow> False)"

text \<open>
  \<open>os.Open\<close>: opens a file or a directory for reading. The handle is the resolved path
  of the node; what is read through it is looked up when the read happens.
\<close>

definition os_Open :: "string \<Rightarrow> world \<Rightarrow> (error + string list) \<times> world" where
  "os_Open p w =
     (let w' = log_call (EvOpen p) w in
      if p = [] then (Inl ENOENT, w')
      else (case lookup w (resolve p) of
              None \<Rightarrow> (Inl ENOENT, w')
            | Some (Dir m) \<Rightarrow> if readable m then (Inr (resolve p), w') else (Inl EACCES, w')
            | Some (File m c) \<Rightarrow> if readable m then (Inr (resolve p), w') else (Inl EACCES, w')))"

definition info_of :: "string \<Rightarrow> node \<Rightarrow> FileInfo" where
  "info_of n nd =
     (case nd of
        Dir m \<Rightarrow> \<lparr>Name = n, IsDir = True, Size = 0, Mode = m\<rparr>
      | File m c \<Rightarrow> \<lparr>Name = n, IsDir = False, Size = length c, Mode = m\<rparr>)"

definition entries :: "world \<Rightarrow> string list \<Rightarrow> FileInfo list" where
  "entries w d =
     map (\<lambda>(k, nd). info_of (last k) nd)
       (filter (\<lambda>(k, nd). k \<noteq> [] \<and> butlast k = d) (files w))"

text \<open>\<open>File.Readdir(0)\<close>: every entry of an open directory, in directory order.\<close>

definition Readdir :: "string list \<Rightarrow> world \<Rightarrow> (error + FileInfo list) \<times> world" where
  "Readdir h w =
     (let w' = log_call (EvReaddir h) w in
      case lookup w h of
        None \<Rightarrow> (Inl EBADF, w')
      | Some (File m c) \<Rightarrow> (Inl ENOTDIR, w')
      | Some (Dir m) \<Rightarrow> (Inr (entries w h), w'))"

text \<open>
  What stands in the way of a new entry at \<open>k\<close>: the parent directory must exist, be a
  directory and be writable.
\<close>

definition parent_error :: "world \<Rightarrow> string list \<Rightarrow> error option" where
  "parent_error w k =
     (if k = [] then Some ENOENT
      else (case lookup w (butlast k) of
              None \<Rightarrow> Some ENOENT
            | Some (File m c) \<Rightarrow> Some ENOTDIR
            | Some (Dir m) \<Rightarrow> if writable m then None else Some EACCES))"

text \<open>\<open>os.Mkdir\<close>: fails with \<open>EEXIST\<close> when anything, directory or not, has the name.\<close>

definition os_Mkdir :: "string \<Rightarrow> FileMode \<Rightarrow> world \<Rightarrow> error option \<times> world" where
  "os_Mkdir p perm w =
     (let w' = log_call (EvMkdir p perm) w in
      if p = [] then (Some ENOENT, w')
      else (case lookup w (resolve p) of
              Some nd \<Rightarrow> (Some EEXIST, w')
            | None \<Rightarrow>
                (case parent_error w (resolve p) of
                   Some e \<Rightarrow> (Some e, w')
                 | None \<Rightarrow> (None, put (resolve p) (Dir perm) w'))))"

text \<open>\<open>os.IsExist\<close>: the errors that say a file or directory already exists.\<close>

definition IsExist :: "error \<Rightarrow> bool" where
  "IsExist err = (err = EEXIST \<or> err = ENOTEMPTY)"

text \<open>\<open>os.Create\<close>: creates the file with mode 0666, or truncates it when it exists.\<close>

definition os_Create :: "string \<Rightarrow> world \<Rightarrow> (error + string list) \<times> world" where
  "os_Create p w =
     (let w' = log_call (EvCreate p) w in
      if p = [] then (Inl ENOENT, w')
      else (case lookup w (resolve p) of
              Some (Dir m) \<Rightarrow> (Inl EISDIR, w')
            | Some (File m c) \<Rightarrow>
                if writable m then (Inr (resolve p), put (resolve p) (File m []) w')
                else (Inl EACCES, w')
            | None \<Rightarrow>
                (case parent_error w (resolve p) of
                   Some e \<Rightarrow> (Inl e, w')
                 | None \<Rightarrow> (Inr (resolve p), put (resolve p) (File 438 []) w'))))"

text \<open>
  Writing \<open>bs\<close> through a freshly opened handle: the bytes land at offset 0 of the file.
\<close>

definition write_at0 :: "string list \<Rightarrow> string \<Rightarrow> world \<Rightarrow> error option \<times> world" where
  "write_at0 h bs w =
     (case lookup w h of
        Some (File m c) \<Rightarrow> (None, put h (File m (bs @ drop (length bs) c)) w)
      | Some (Dir m) \<Rightarrow> (Some EISDIR, w)
      | None \<Rightarrow> (Some EBADF, w))"

text \<open>\<open>io.Copy(out, in)\<close>: reads \<open>in\<close> to its end and writes what it read to \<open>out\<close>.\<close>

definition io_Copy :: "string list \<Rightarrow> string list \<Rightarrow> world \<Rightarrow> error option \<times> world" where
  "io_Copy out_h in_h w =
     (let w' = log_call (EvCopy out_h in_h) w in
      case lookup w in_h of
        None \<Rightarrow> (Some EBADF, w')
      | Some (Dir m) \<Rightarrow> (Some EISDIR, w')
      | Some (File m c) \<Rightarrow> write_at0 out_h c w')"

section \<open>The template engine\<close>

text \<open>
  \<open>html/template\<close> is not part of the module. What the module needs of it is a parser
  from the bytes of a file to a template, and a renderer from a template and the user
  data to the bytes it writes and the error it ends with, if any. Both are parameters.
\<close>

record ('t, 'd) engine =
  parse :: "string \<Rightarrow> error + 't"
  execute :: "'t \<Rightarrow> 'd option \<Rightarrow> string \<times> error option"

text \<open>\<open>template.ParseFiles(source)\<close>: reads the file and parses what it read.\<close>

definition ParseFiles :: "('t, 'd) engine \<Rightarrow> string \<Rightarrow> world \<Rightarrow> (error + 't) \<times> world" where
  "ParseFiles eng p w =
     (let w' = log_call (EvParseFiles p) w in
      if p = [] then (Inl ENOENT, w')
      else (case lookup w (resolve p) of
              None \<Rightarrow> (Inl ENOENT, w')
            | Some (Dir m) \<Rightarrow> if readable m then (Inl EISDIR, w') else (Inl EACCES, w')
            | Some (File m c) \<Rightarrow> if readable m then (parse eng c, w') else (Inl EACCES, w')))"

text \<open>\<open>tmpl.Execute(out, data)\<close>: what is rendered before an error is written all the same.\<close>

definition Execute ::
  "('t, 'd) engine \<Rightarrow> 't \<Rightarrow> string list \<Rightarrow> 'd option \<Rightarrow> world \<Rightarrow> error option \<times> world" where
  "Execute eng tmpl out_h data w =
     (let w' = log_call (EvExecute out_h) w in
      case write_at0 out_h (fst (execute eng tmpl data)) w' of
        (Some e, w'') \<Rightarrow> (Some e, w'')
      | (None, w'') \<Rightarrow> (snd (execute eng tmpl data), w''))"

section \<open>The module\<close>

text \<open>
  A value of the interface type \<open>os.FileInfo\<close> or \<open>interface{}\<close> may be \<open>nil\<close>: it is an
  option. An \<open>error\<close> result is \<open>None\<close> for \<open>nil\<close>.
\<close>

record 'd Translator =
  Source :: string
  Target :: string
  ExcludeDir :: "FileInfo option \<Rightarrow> bool"
  ExcludeFile :: "FileInfo option \<Rightarrow> bool"
  DirMode :: FileMode
  CopyFunc :: "string \<Rightarrow> string \<Rightarrow> FileInfo option \<Rightarrow> 'd option \<Rightarrow> world \<Rightarrow> error option \<times> world"
  CopyData :: "'d option"

definition ExcludeNone :: "FileInfo option \<Rightarrow> bool" where
  "ExcludeNone fi = False"

definition GetChildren :: "string \<Rightarrow> world \<Rightarrow> (error + FileInfo list) \<times> world" where
  "GetChildren p w =
     (case os_Open p w of
        (Inl err, w1) \<Rightarrow> (Inl err, w1)
      | (Inr f, w1) \<Rightarrow> Readdir f w1)"

definition ColdCopy ::
  "string \<Rightarrow> string \<Rightarrow> FileInfo option \<Rightarrow> 'd option \<Rightarrow> world \<Rightarrow> error option \<times> world" where
  "ColdCopy source target fi data w =
     (case os_Open source w of
        (Inl err, w1) \<Rightarrow> (Some err, w1)
      | (Inr in_h, w1) \<Rightarrow>
          (case os_Create target w1 of
             (Inl err, w2) \<Rightarrow> (Some err, w2)
           | (Inr out_h, w2) \<Rightarrow> io_Copy out_h in_h w2))"

definition TemplateCopy ::
  "('t, 'd) engine \<Rightarrow> string \<Rightarrow> string \<Rightarrow> FileInfo option \<Rightarrow> 'd option \<Rightarrow> world
     \<Rightarrow> error option \<times> world" where
  "TemplateCopy eng source target fi data w =
     (if \<not> HasSuffix source ''.tmpl'' then ColdCopy source target None (None :: 'd option) w
      else (case os_Create (TrimSuffix target ''.tmpl'') w of
              (Inl err, w1) \<Rightarrow> (Some err, w1)
            | (Inr out_h, w1) \<Rightarrow>
                (case ParseFiles eng source w1 of
                   (Inl err, w2) \<Rightarrow> (Some err, w2)
                 | (Inr tmpl, w2) \<Rightarrow> Execute eng tmpl out_h data w2)))"

text \<open>\<open>0755\<close> is octal: \<open>7 * 64 + 5 * 8 + 5 = 493\<close>. \<open>CopyData\<close> is left at its zero value.\<close>

definition New :: "string \<Rightarrow> string \<Rightarrow> 'd Translator" where
  "New source target =
     \<lparr>Source = Clean source,
      Target = Clean target,
      ExcludeDir = ExcludeNone,
      ExcludeFile = ExcludeNone,
      DirMode = 493,
      CopyFunc = ColdCopy,
      CopyData = None\<rparr>"

definition CopyFile ::
  "'d Translator \<Rightarrow> string \<Rightarrow> FileInfo option \<Rightarrow> world \<Rightarrow> error option \<times> world" where
  "CopyFile t subpath fi w =
     (if \<not> ExcludeFile t fi then
        CopyFunc t (Join [Source t, subpath]) (Join [Target t, subpath]) fi (CopyData t) w
      else (None, w))"

text \<open>
  The loop of \<open>CopyDir\<close> over the children. \<open>rec\<close> is the recursive call of \<open>CopyDir\<close>,
  which has no result (\<open>None\<close>) when it does not return. The error either call returns
  is dropped, as the loop body is an expression statement.
\<close>

fun CopyChildren ::
  "(string \<Rightarrow> world \<Rightarrow> (error option \<times> world) option) \<Rightarrow> 'd Translator \<Rightarrow> string
     \<Rightarrow> FileInfo list \<Rightarrow> world \<Rightarrow> world option" where
  "CopyChildren rec t subpath [] w = Some w"
| "CopyChildren rec t subpath (child # rest) w =
     (if IsDir child then
        (case rec (Join [subpath, Name child]) w of
           None \<Rightarrow> None
         | Some (err, w') \<Rightarrow> CopyChildren rec t subpath rest w')
      else
        (case CopyFile t (Join [subpath, Name child]) (Some child) w of
           (err, w') \<Rightarrow> CopyChildren rec t subpath rest w'))"

text \<open>
  \<open>CopyDir\<close>, with the depth of recursion it may use as its first argument: the result is
  \<open>None\<close> when the walk needs a deeper recursion than that.
\<close>

fun CopyDir ::
  "nat \<Rightarrow> 'd Translator \<Rightarrow> string \<Rightarrow> world \<Rightarrow> (error option \<times> world) option" where
  "CopyDir 0 t subpath w = None"
| "CopyDir (Suc n) t subpath w =
     (case GetChildren (Join [Source t, subpath]) w of
        (Inl err, w1) \<Rightarrow> Some (Some err, w1)
      | (Inr children, w1) \<Rightarrow>
          (case os_Mkdir (Join [Target t, subpath]) (DirMode t) w1 of
             (err, w2) \<Rightarrow>
               if err \<noteq> None \<and> \<not> IsExist (the err) then Some (err, w2)
               else (case CopyChildren (CopyDir n t) t subpath children w2 of
                       None \<Rightarrow> None
                     | Some w3 \<Rightarrow> Some (None, w3))))"

text \<open>
  \<open>Translate\<close>, with the same bound on the depth of recursion as its first argument.
\<close>

definition Translate :: "nat \<Rightarrow> 'd Translator \<Rightarrow> world \<Rightarrow> (error option \<times> world) option" where
  "Translate n t w = CopyDir n t [] w"

section \<open>The earlier revision\<close>

text \<open>
  The repository holds two revisions of the module. The definitions above follow the later
  one, which has \<open>TemplateCopy\<close>. The earlier one differs in two places: its \<open>Translate\<close>
  is a stub that returns \<open>nil\<close>, and its \<open>CopyDir\<close> returns every error of \<open>os.Mkdir\<close>.
\<close>

definition Translate_rev0 :: "'d Translator \<Rightarrow> world \<Rightarrow> error option \<times> world" where
  "Translate_rev0 t w = (None, w)"

fun CopyDir_rev0 ::
  "nat \<Rightarrow> 'd Translator \<Rightarrow> string \<Rightarrow> world \<Rightarrow> (error option \<times> world) option" where
  "CopyDir_rev0 0 t subpath w = None"
| "CopyDir_rev0 (Suc n) t subpath w =
     (case GetChildren (Join [Source t, subpath]) w of
        (Inl err, w1) \<Rightarrow> Some (Some err, w1)
      | (Inr children, w1) \<Rightarrow>
          (case os_Mkdir (Join [Target t, subpath]) (DirMode t) w1 of
             (err, w2) \<Rightarrow>
               if err \<noteq> None then Some (err, w2)
               else (case CopyChildren (CopyDir_rev0 n t) t subpath children w2 of
                       None \<Rightarrow> None
                     | Some w3 \<Rightarrow> Some (None, w3))))"

section \<open>Auxiliary notions\<close>

text \<open>A copy strategy that only ever adds calls to the log, whatever else it does.\<close>

definition appends_only ::
  "(string \<Rightarrow> string \<Rightarrow> FileInfo option \<Rightarrow> 'd option \<Rightarrow> world \<Rightarrow> error option \<times> world) \<Rightarrow> bool" where
  "appends_only f = (\<forall>s g fi d w. \<exists>es. log (snd (f s g fi d w)) = log w @ es)"

text \<open>A copy strategy that starts by opening its source, and then only adds to the log.\<close>

definition announces ::
  "(string \<Rightarrow> string \<Rightarrow> FileInfo option \<Rightarrow> 'd option \<Rightarrow> world \<Rightarrow> error option \<times> world) \<Rightarrow> bool" where
  "announces f = (\<forall>s g fi d w. \<exists>es. log (snd (f s g fi d w)) = log w @ EvOpen s # es)"

text \<open>A copy strategy with its error result replaced by \<open>nil\<close>.\<close>

definition mute ::
  "(string \<Rightarrow> string \<Rightarrow> FileInfo option \<Rightarrow> 'd option \<Rightarrow> world \<Rightarrow> error option \<times> world)
     \<Rightarrow> string \<Rightarrow> string \<Rightarrow> FileInfo option \<Rightarrow> 'd option \<Rightarrow> world \<Rightarrow> error option \<times> world" where
  "mute f s g fi d w = (None, snd (f s g fi d w))"

section \<open>Well-formed trees\<close>

text \<open>
  A name an entry of a directory can have: not empty, not \<open>.\<close> or \<open>..\<close>, and without
  a slash. In a well-formed world every node is reached by such names.
\<close>

definition ok_name :: "string \<Rightarrow> bool" where
  "ok_name n = (n \<noteq> [] \<and> n \<noteq> ''.'' \<and> n \<noteq> ''..'' \<and> CHR ''/'' \<notin> set n)"

definition wf_world :: "world \<Rightarrow> bool" where
  "wf_world w = (\<forall>(k, nd) \<in> set (files w). \<forall>n \<in> set k. ok_name n)"

text \<open>The part of the file system at or below a directory, in directory order.\<close>

definition under :: "string list \<Rightarrow> world \<Rightarrow> (string list \<times> node) list" where
  "under root w = filter (\<lambda>(k, nd). prefix root k) (files w)"

text \<open>
  A world \<open>w'\<close> keeps what \<open>w\<close> has below a root when that part is the same in both and
  \<open>w'\<close> is well-formed.
\<close>

definition kept :: "string list \<Rightarrow> world \<Rightarrow> world \<Rightarrow> bool" where
  "kept root w w' = (under root w' = under root w \<and> wf_world w')"

section \<open>Example trees\<close>

text \<open>
  A source tree \<open>src\<close> with an unreadable file \<open>a\<close> (mode 0), a file \<open>b\<close> (mode 0644),
  and a directory \<open>d\<close> holding a file \<open>c\<close>, in that directory order; no \<open>out\<close> yet.
\<close>

definition site :: world where
  "site =
     \<lparr>files =
        [([], Dir 493),
         ([''src''], Dir 493),
         ([''src'', ''a''], File 0 ''A''),
         ([''src'', ''b''], File 420 ''B''),
         ([''src'', ''d''], Dir 493),
         ([''src'', ''d'', ''c''], File 420 ''C'')],
      log = []\<rparr>"

text \<open>The same tree after \<open>New("src", "out").Translate()\<close>.\<close>

definition site_mirrored :: world where
  "site_mirrored =
     \<lparr>files =
        [([], Dir 493),
         ([''src''], Dir 493),
         ([''src'', ''a''], File 0 ''A''),
         ([''src'', ''b''], File 420 ''B''),
         ([''src'', ''d''], Dir 493),
         ([''src'', ''d'', ''c''], File 420 ''C''),
         ([''out''], Dir 493),
         ([''out'', ''b''], File 438 ''B''),
         ([''out'', ''d''], Dir 493),
         ([''out'', ''d'', ''c''], File 438 ''C'')],
      log =
        [EvOpen ''src'', EvReaddir [''src''], EvMkdir ''out'' 493,
         EvOpen ''src/a'',
         EvOpen ''src/b'', EvCreate ''out/b'', EvCopy [''out'', ''b''] [''src'', ''b''],
         EvOpen ''src/d'', EvReaddir [''src'', ''d''], EvMkdir ''out/d'' 493,
         EvOpen ''src/d/c'', EvCreate ''out/d/c'',
         EvCopy [''out'', ''d'', ''c''] [''src'', ''d'', ''c'']]\<rparr>"


text \<open>The tree \<open>site\<close> with a regular file in the place of the target directory \<open>out\<close>.\<close>

definition site_blocked :: world where
  "site_blocked =
     \<lparr>files =
        [([], Dir 493),
         ([''src''], Dir 493),
         ([''src'', ''a''], File 0 ''A''),
         ([''src'', ''b''], File 420 ''B''),
         ([''src'', ''d''], Dir 493),
         ([''src'', ''d'', ''c''], File 420 ''C''),
         ([''out''], File 420 ''x'')],
      log = []\<rparr>"

text \<open>The same after \<open>New("src", "out").Translate()\<close>: no file has changed.\<close>

definition site_blocked_walked :: world where
  "site_blocked_walked =
     \<lparr>files =
        [([], Dir 493),
         ([''src''], Dir 493),
         ([''src'', ''a''], File 0 ''A''),
         ([''src'', ''b''], File 420 ''B''),
         ([''src'', ''d''], Dir 493),
         ([''src'', ''d'', ''c''], File 420 ''C''),
         ([''out''], File 420 ''x'')],
      log =
        [EvOpen ''src'', EvReaddir [''src''], EvMkdir ''out'' 493,
         EvOpen ''src/a'',
         EvOpen ''src/b'', EvCreate ''out/b'',
         EvOpen ''src/d'', EvReaddir [''src'', ''d''], EvMkdir ''out/d'' 493]\<rparr>"

text \<open>A tree of pages, with a target directory that already holds a file \<open>bad\<close>.\<close>

definition pages :: world where
  "pages =
     \<lparr>files =
        [([], Dir 493),
         ([''in''], Dir 493),
         ([''in'', ''page.html.tmpl''], File 420 ''<p>hi</p>''),
         ([''in'', ''bad.tmpl''], File 420 ''{{''),
         ([''in'', ''readme.txt''], File 420 ''read me''),
         ([''out''], Dir 493),
         ([''out'', ''bad''], File 420 ''old'')],
      log = []\<rparr>"

text \<open>
  A template engine for the examples: a template is literal text, a brace in it is a
  parse error, and rendering writes the text.
\<close>

definition literal_engine :: "(string, unit) engine" where
  "literal_engine =
     \<lparr>parse = (\<lambda>s. if CHR ''{'' \<in> set s then Inl (ParseError s) else Inr s),
      execute = (\<lambda>tmpl data. (tmpl, None))\<rparr>"

definition plain :: "unit Translator" where
  "plain = New ''src'' ''out''"

section \<open>Facts about paths\<close>

lemma split_slash_not_Nil: "split_slash p \<noteq> []"
  by (induction p) (auto split: list.splits)

lemma split_slash_no_slash: "c \<in> set (split_slash p) \<Longrightarrow> CHR ''/'' \<notin> set c"
  by (induction p arbitrary: c) (auto split: list.splits if_splits)

lemma split_slash_single: "CHR ''/'' \<notin> set n \<Longrightarrow> split_slash n = [n]"
  by (induction n) auto

lemma split_slash_append:
  "split_slash (a @ CHR ''/'' # b) = split_slash a @ split_slash b"
proof (induction a)
  case Nil
  show ?case by (simp add: split_slash_not_Nil)
next
  case (Cons c a)
  then show ?case
    using split_slash_not_Nil [of a] split_slash_not_Nil [of b]
    by (cases "split_slash a") (auto split: list.splits)
qed

lemma split_slash_join:
  "ms \<noteq> [] \<Longrightarrow> \<forall>m \<in> set ms. CHR ''/'' \<notin> set m \<Longrightarrow> split_slash (join_slash ms) = ms"
proof (induction ms rule: join_slash.induct)
  case 1
  then show ?case by simp
next
  case (2 x)
  then show ?case by (simp add: split_slash_single)
next
  case (3 x y ys)
  then show ?case by (simp add: split_slash_append split_slash_single)
qed

lemma join_slash_snoc:
  "ms \<noteq> [] \<Longrightarrow> join_slash (ms @ [n]) = join_slash ms @ CHR ''/'' # n"
  by (induction ms rule: join_slash.induct) auto

lemma join_slash_not_Nil: "ms \<noteq> [] \<Longrightarrow> hd ms \<noteq> [] \<Longrightarrow> join_slash ms \<noteq> []"
  by (induction ms rule: join_slash.induct) auto

lemma is_rooted_join_slash:
  "ms \<noteq> [] \<Longrightarrow> hd ms \<noteq> [] \<Longrightarrow> is_rooted (join_slash ms) = is_rooted (hd ms)"
  by (induction ms rule: join_slash.induct) (auto simp: is_rooted_def split: list.splits)

lemma ok_name_not_rooted: "ok_name n \<Longrightarrow> \<not> is_rooted n"
  unfolding ok_name_def is_rooted_def by (cases n) auto

lemma ok_name_no_slash: "ok_name n \<Longrightarrow> CHR ''/'' \<notin> set n"
  unfolding ok_name_def by blast

lemma ok_name_not_Nil: "ok_name n \<Longrightarrow> n \<noteq> []"
  unfolding ok_name_def by blast

lemma fold_push_names:
  "\<forall>n \<in> set ns. ok_name n \<Longrightarrow> fold (clean_step r) ns st = rev ns @ st"
  by (induction ns arbitrary: st) (auto simp: clean_step_def ok_name_def)

text \<open>The relative and the rooted clean-up differ only in the leading dot-dots.\<close>

lemma clean_step_rel:
  assumes "sf = st @ replicate k ''..''" and "''..'' \<notin> set st"
  shows "\<exists>k'. clean_step False c sf = clean_step True c st @ replicate k' ''..'' \<and>
              ''..'' \<notin> set (clean_step True c st)"
proof (cases "c = [] \<or> c = ''.''")
  case True
  with assms show ?thesis by (auto simp: clean_step_def)
next
  case False
  show ?thesis
  proof (cases "c = ''..''")
    case c: True
    show ?thesis
    proof (cases st)
      case Nil
      with assms c show ?thesis
        by (cases k) (auto simp: clean_step_def intro: exI [of _ "Suc (Suc _)"] exI [of _ "Suc 0"])
    next
      case (Cons x st')
      with assms c show ?thesis
        by (auto simp: clean_step_def)
    qed
  next
    case c: False
    with False assms show ?thesis by (auto simp: clean_step_def)
  qed
qed

lemma fold_clean_step_rel:
  assumes "sf = st @ replicate k ''..''" and "''..'' \<notin> set st"
  shows "\<exists>k'. fold (clean_step False) cs sf = fold (clean_step True) cs st @ replicate k' ''..'' \<and>
              ''..'' \<notin> set (fold (clean_step True) cs st)"
  using assms
proof (induction cs arbitrary: sf st k)
  case Nil
  then show ?case by auto
next
  case (Cons c cs)
  from clean_step_rel [OF Cons.prems] obtain k' where
    "clean_step False c sf = clean_step True c st @ replicate k' ''..''"
    "''..'' \<notin> set (clean_step True c st)"
    by blast
  from Cons.IH [OF this] show ?case by simp
qed

lemma clean_step_names:
  assumes st: "\<forall>n \<in> set st. ok_name n" and c: "CHR ''/'' \<notin> set c"
  shows "\<forall>n \<in> set (clean_step True c st). ok_name n"
proof (cases "c = [] \<or> c = ''.''")
  case True
  then have "clean_step True c st = st" by (simp add: clean_step_def)
  with st show ?thesis by simp
next
  case False
  show ?thesis
  proof (cases "c = ''..''")
    case dd: True
    show ?thesis
    proof (cases st)
      case Nil
      with dd have "clean_step True c st = []" by (simp add: clean_step_def)
      then show ?thesis by simp
    next
      case (Cons x xs)
      with st have "ok_name x" by simp
      then have "x \<noteq> ''..''" unfolding ok_name_def by blast
      with dd Cons have "clean_step True c st = xs" by (simp add: clean_step_def)
      with st Cons show ?thesis by simp
    qed
  next
    case nd: False
    with False have "clean_step True c st = c # st" by (simp add: clean_step_def)
    moreover from False nd c have "ok_name c" unfolding ok_name_def by blast
    ultimately show ?thesis using st by simp
  qed
qed

lemma fold_clean_step_names:
  "\<forall>n \<in> set st. ok_name n \<Longrightarrow> \<forall>c \<in> set cs. CHR ''/'' \<notin> set c \<Longrightarrow>
     \<forall>n \<in> set (fold (clean_step True) cs st). ok_name n"
proof (induction cs arbitrary: st)
  case Nil
  then show ?case by simp
next
  case (Cons c cs)
  have "\<forall>n \<in> set (clean_step True c st). ok_name n"
    using Cons.prems by (intro clean_step_names) auto
  from Cons.IH [OF this] Cons.prems show ?case by simp
qed

lemma resolve_names: "\<forall>n \<in> set (resolve p). ok_name n"
  using fold_clean_step_names [of "[]" "split_slash p"] split_slash_no_slash
  by (auto simp: resolve_def)

lemma fold_drop_dots:
  "fold (clean_step True) (replicate k ''..'' @ ns) [] = fold (clean_step True) ns []"
proof (induction k)
  case 0
  show ?case by simp
next
  case (Suc k)
  have "clean_step True ''..'' [] = []" by (simp add: clean_step_def)
  with Suc show ?case by (simp del: fold_replicate)
qed

lemma resolve_slash: "resolve ''/'' = []"
  by code_simp

lemma resolve_dot: "resolve ''.'' = []"
  by code_simp

lemma clean_step_True_empty: "clean_step True [] st = st"
  by (simp add: clean_step_def)

lemma Clean_form:
  "\<exists>k. (is_rooted p \<longrightarrow> k = 0) \<and>
       Clean p =
         (let out = (if is_rooted p then ''/'' else []) @
                    join_slash (replicate k ''..'' @ resolve p)
          in if out = [] then ''.'' else out)"
proof (cases "is_rooted p")
  case True
  then have "Clean p =
         (let out = (if is_rooted p then ''/'' else []) @
                    join_slash (replicate 0 ''..'' @ resolve p)
          in if out = [] then ''.'' else out)"
    by (simp add: Clean_def resolve_def)
  then show ?thesis by blast
next
  case False
  from fold_clean_step_rel [of "[]" "[]" 0 "split_slash p"] obtain k where
    "fold (clean_step False) (split_slash p) [] =
       fold (clean_step True) (split_slash p) [] @ replicate k ''..''"
    by auto
  then have "rev (fold (clean_step False) (split_slash p) []) = replicate k ''..'' @ resolve p"
    by (simp add: resolve_def)
  with False have "Clean p =
         (let out = (if is_rooted p then ''/'' else []) @
                    join_slash (replicate k ''..'' @ resolve p)
          in if out = [] then ''.'' else out)"
    by (simp only: Clean_def)
  with False show ?thesis by blast
qed

lemma Clean_not_Nil: "Clean p \<noteq> []"
  by (simp add: Clean_def Let_def)

text \<open>Cleaning a path does not change the node it names.\<close>

lemma resolve_Clean: "resolve (Clean p) = resolve p"
proof -
  from Clean_form [of p] obtain k where k: "is_rooted p \<longrightarrow> k = 0" and
    C: "Clean p =
         (let out = (if is_rooted p then ''/'' else []) @
                    join_slash (replicate k ''..'' @ resolve p)
          in if out = [] then ''.'' else out)"
    by blast
  define xs where "xs = replicate k ''..'' @ resolve p"
  have names: "\<forall>n \<in> set (resolve p). ok_name n" by (rule resolve_names)
  have "\<forall>m \<in> set (replicate k ''..''). CHR ''/'' \<notin> set m" by simp
  moreover have "\<forall>m \<in> set (resolve p). CHR ''/'' \<notin> set m"
    using names unfolding ok_name_def by blast
  ultimately have noslash: "\<forall>m \<in> set xs. CHR ''/'' \<notin> set m"
    unfolding xs_def by (metis Un_iff set_append)
  have res: "fold (clean_step True) xs [] = rev (resolve p)"
    unfolding xs_def using names by (simp only: fold_drop_dots fold_push_names append_Nil2)
  from C have C': "Clean p =
      (let out = (if is_rooted p then ''/'' else []) @ join_slash xs
       in if out = [] then ''.'' else out)"
    unfolding xs_def .
  show ?thesis
  proof (cases "xs = []")
    case True
    then have "resolve p = []" unfolding xs_def by simp
    moreover from True C' have "Clean p = ''/'' \<or> Clean p = ''.''"
      by (simp add: Let_def)
    ultimately show ?thesis using resolve_slash resolve_dot by auto
  next
    case False
    have s: "split_slash (join_slash xs) = xs"
      by (rule split_slash_join [OF False noslash])
    have j: "join_slash xs \<noteq> []"
    proof
      assume "join_slash xs = []"
      with s have x: "xs = [[]]" by simp
      show False
      proof (cases k)
        case 0
        with x names show ?thesis unfolding xs_def ok_name_def by auto
      next
        case (Suc k')
        with x show ?thesis unfolding xs_def by simp
      qed
    qed
    show ?thesis
    proof (cases "is_rooted p")
      case True
      with C' have "Clean p = CHR ''/'' # join_slash xs"
        by (simp add: Let_def)
      then have "split_slash (Clean p) = [] # xs"
        using split_slash_append [of "[]" "join_slash xs"] s by simp
      then have "fold (clean_step True) (split_slash (Clean p)) [] = fold (clean_step True) xs []"
        by (simp add: clean_step_True_empty)
      with res show ?thesis by (simp add: resolve_def)
    next
      case r: False
      with C' j have "Clean p = join_slash xs"
        by (simp add: Let_def)
      with s have "split_slash (Clean p) = xs" by simp
      with res show ?thesis by (simp add: resolve_def)
    qed
  qed
qed

lemma Clean_names:
  assumes ne: "ms \<noteq> []" and ok: "\<forall>m \<in> set ms. ok_name m"
  shows "Clean (join_slash ms) = join_slash ms"
proof -
  from ne ok have h: "ok_name (hd ms)" by simp
  have r: "\<not> is_rooted (join_slash ms)"
    using is_rooted_join_slash [OF ne ok_name_not_Nil [OF h]] ok_name_not_rooted [OF h] by simp
  have s: "split_slash (join_slash ms) = ms"
    using ne ok by (intro split_slash_join) (auto dest: ok_name_no_slash)
  have f: "fold (clean_step False) ms [] = rev ms"
    using fold_push_names [OF ok, of False "[]"] by simp
  have j: "join_slash ms \<noteq> []"
    by (rule join_slash_not_Nil [OF ne ok_name_not_Nil [OF h]])
  show ?thesis
    using r j by (simp add: Clean_def s f)
qed

text \<open>Joining a name to a subpath, and a subpath to a root, extends the resolved path.\<close>

lemma Join_sub:
  assumes ok: "\<forall>m \<in> set ns. ok_name m" and n: "ok_name n"
  shows "Join [join_slash ns, n] = join_slash (ns @ [n])"
proof (cases "ns = []")
  case True
  have "Clean (join_slash [n]) = join_slash [n]"
    using n by (intro Clean_names) simp_all
  with True ok_name_not_Nil [OF n] show ?thesis by (simp add: Join_def)
next
  case False
  with ok have "ok_name (hd ns)" by simp
  then have j: "join_slash ns \<noteq> []"
    using False by (intro join_slash_not_Nil) (auto dest: ok_name_not_Nil)
  have "Clean (join_slash (ns @ [n])) = join_slash (ns @ [n])"
    using ok n by (intro Clean_names) auto
  with j ok_name_not_Nil [OF n] False show ?thesis
    by (simp add: Join_def join_slash_snoc)
qed

lemma resolve_Join:
  assumes r: "root \<noteq> []" and ok: "\<forall>m \<in> set ns. ok_name m"
  shows "resolve (Join [root, join_slash ns]) = resolve root @ ns"
proof (cases "ns = []")
  case True
  with r have "Join [root, join_slash ns] = Clean root" by (simp add: Join_def)
  with True show ?thesis by (simp add: resolve_Clean)
next
  case False
  with ok have "ok_name (hd ns)" by simp
  then have j: "join_slash ns \<noteq> []"
    using False by (intro join_slash_not_Nil) (auto dest: ok_name_not_Nil)
  with r have "Join [root, join_slash ns] = Clean (root @ CHR ''/'' # join_slash ns)"
    by (simp add: Join_def)
  then have "resolve (Join [root, join_slash ns]) = resolve (root @ CHR ''/'' # join_slash ns)"
    by (simp add: resolve_Clean)
  also have "split_slash (root @ CHR ''/'' # join_slash ns) = split_slash root @ ns"
    using False ok by (simp add: split_slash_append split_slash_join ok_name_no_slash)
  then have "resolve (root @ CHR ''/'' # join_slash ns) = resolve root @ ns"
    using fold_push_names [OF ok, of True] by (simp add: resolve_def)
  finally show ?thesis .
qed

section \<open>Facts about the file system\<close>

lemma map_of_store: "map_of (store k v xs) = (map_of xs)(k \<mapsto> v)"
  by (induction xs) (auto simp: fun_eq_iff)

lemma lookup_put: "lookup (put k v w) k' = (if k' = k then Some v else lookup w k')"
  by (simp add: lookup_def put_def map_of_store)

lemma lookup_log_call: "lookup (log_call ev w) k = lookup w k"
  by (simp add: lookup_def log_call_def)

lemma log_put: "log (put k v w) = log w"
  by (simp add: put_def)

lemma files_log_call: "files (log_call ev w) = files w"
  by (simp add: log_call_def)

lemma log_log_call: "log (log_call ev w) = log w @ [ev]"
  by (simp add: log_call_def)

lemma os_Open_world: "snd (os_Open p w) = log_call (EvOpen p) w"
  by (simp add: os_Open_def Let_def split: option.splits node.splits)

lemma os_Open_log: "log (snd (os_Open p w)) = log w @ [EvOpen p]"
  by (simp add: os_Open_world log_log_call)

lemma os_Open_Inr: "os_Open p w = (Inr h, w1) \<Longrightarrow> h = resolve p \<and> lookup w h \<noteq> None"
  by (auto simp: os_Open_def Let_def split: option.splits node.splits if_splits)

lemma Readdir_world: "snd (Readdir h w) = log_call (EvReaddir h) w"
  by (simp add: Readdir_def Let_def split: option.splits node.splits)

lemma os_Mkdir_log: "log (snd (os_Mkdir p perm w)) = log w @ [EvMkdir p perm]"
  by (simp add: os_Mkdir_def Let_def log_put log_log_call split: option.splits)

lemma os_Mkdir_None:
  "os_Mkdir p perm w = (None, w2) \<Longrightarrow>
     w2 = put (resolve p) (Dir perm) (log_call (EvMkdir p perm) w) \<and> lookup w (resolve p) = None"
  by (auto simp: os_Mkdir_def Let_def split: option.splits if_splits)

lemma os_Mkdir_Some:
  "os_Mkdir p perm w = (Some e, w2) \<Longrightarrow> w2 = log_call (EvMkdir p perm) w"
  by (auto simp: os_Mkdir_def Let_def split: option.splits if_splits)

lemma os_Mkdir_exists:
  "p \<noteq> [] \<Longrightarrow> lookup w (resolve p) = Some nd \<Longrightarrow>
     os_Mkdir p perm w = (Some EEXIST, log_call (EvMkdir p perm) w)"
  by (simp add: os_Mkdir_def Let_def)


lemma os_Mkdir_is_dir:
  assumes "os_Mkdir p perm w = (err, w2)"
  shows "is_dir w2 p \<longleftrightarrow> err = None \<or> is_dir w p"
proof (cases err)
  case None
  with assms os_Mkdir_None [of p perm w w2] show ?thesis
    by (simp add: is_dir_def lookup_put)
next
  case (Some e)
  with assms os_Mkdir_Some [of p perm w e w2] show ?thesis
    by (simp add: is_dir_def lookup_log_call)
qed

lemma os_Create_log: "log (snd (os_Create p w)) = log w @ [EvCreate p]"
  by (simp add: os_Create_def Let_def log_put log_log_call split: option.splits node.splits)

lemma os_Create_Inr:
  "os_Create p w = (Inr h, w1) \<Longrightarrow>
     h = resolve p \<and> (\<exists>m. w1 = put h (File m []) (log_call (EvCreate p) w))"
  by (auto simp: os_Create_def Let_def split: option.splits node.splits if_splits)

lemma os_Create_Inl:
  "os_Create p w = (Inl e, w1) \<Longrightarrow> w1 = log_call (EvCreate p) w"
  by (auto simp: os_Create_def Let_def split: option.splits node.splits if_splits)

lemma write_at0_log: "log (snd (write_at0 h bs w)) = log w"
  by (simp add: write_at0_def log_put split: option.splits node.splits)

lemma io_Copy_log: "log (snd (io_Copy out_h in_h w)) = log w @ [EvCopy out_h in_h]"
  by (simp add: io_Copy_def Let_def write_at0_log log_log_call split: option.splits node.splits)

lemma io_Copy_None:
  "io_Copy out_h in_h w = (None, w') \<Longrightarrow>
     \<exists>m c m' c'. lookup w in_h = Some (File m c) \<and> lookup w out_h = Some (File m' c') \<and>
       w' = put out_h (File m' (c @ drop (length c) c')) (log_call (EvCopy out_h in_h) w)"
  by (auto simp: io_Copy_def write_at0_def Let_def lookup_log_call
           split: option.splits node.splits)

lemma ParseFiles_world: "snd (ParseFiles eng p w) = log_call (EvParseFiles p) w"
  by (simp add: ParseFiles_def Let_def split: option.splits node.splits)

lemma ParseFiles_Inr:
  "ParseFiles eng p w = (Inr tmpl, w') \<Longrightarrow> \<exists>c. file_bytes w p = Some c \<and> parse eng c = Inr tmpl"
  by (auto simp: ParseFiles_def Let_def file_bytes_def split: option.splits node.splits if_splits)

lemma Execute_fresh:
  "lookup w h = Some (File m []) \<Longrightarrow>
     Execute eng tmpl h data w =
       (snd (execute eng tmpl data),
        put h (File m (fst (execute eng tmpl data))) (log_call (EvExecute h) w))"
  by (simp add: Execute_def write_at0_def Let_def lookup_log_call)

lemma TrimSuffix_append: "HasSuffix s suf \<Longrightarrow> TrimSuffix s suf @ suf = s"
proof -
  assume h: "HasSuffix s suf"
  then have "take (length s - length suf) s @ drop (length s - length suf) s = s"
    by simp
  with h show ?thesis by (simp add: TrimSuffix_def HasSuffix_def)
qed

section \<open>Facts about the walk\<close>

lemma GetChildren_Inl:
  "GetChildren p w = (Inl e, w1) \<Longrightarrow>
     w1 = log_call (EvOpen p) w \<or>
     w1 = log_call (EvReaddir (resolve p)) (log_call (EvOpen p) w)"
  by (auto simp: GetChildren_def os_Open_def Readdir_def Let_def
           split: option.splits node.splits if_splits)

lemma GetChildren_Inr:
  "GetChildren p w = (Inr cs, w1) \<Longrightarrow>
     w1 = log_call (EvReaddir (resolve p)) (log_call (EvOpen p) w) \<and>
     cs = entries w (resolve p) \<and> is_dir w p"
  apply (simp add: GetChildren_def split: prod.splits sum.splits)
  apply (auto simp: os_Open_def Readdir_def Let_def is_dir_def entries_def lookup_log_call files_log_call split: option.splits node.splits if_splits)
  done

lemma ColdCopy_log:
  "\<exists>es. log (snd (ColdCopy source target fi data w)) = log w @ EvOpen source # es"
proof (cases "os_Open source w")
  case (Pair r w1)
  have l1: "log w1 = log w @ [EvOpen source]"
    using os_Open_log [of source w] Pair by simp
  show ?thesis
  proof (cases r)
    case (Inl e)
    with Pair l1 show ?thesis by (simp add: ColdCopy_def)
  next
    case (Inr in_h)
    show ?thesis
    proof (cases "os_Create target w1")
      case (Pair r2 w2)
      have l2: "log w2 = log w1 @ [EvCreate target]"
        using os_Create_log [of target w1] Pair by simp
      show ?thesis
      proof (cases r2)
        case (Inl e)
        with Pair \<open>os_Open source w = (r, w1)\<close> Inr l1 l2 show ?thesis
          by (simp add: ColdCopy_def)
      next
        case out: (Inr out_h)
        with Pair \<open>os_Open source w = (r, w1)\<close> Inr l1 l2 io_Copy_log [of out_h in_h w2]
        show ?thesis
          by (simp add: ColdCopy_def)
      qed
    qed
  qed
qed

lemma appends_only_ColdCopy: "appends_only ColdCopy"
  unfolding appends_only_def using ColdCopy_log by (metis append_Cons append_Nil)

lemma announces_ColdCopy: "announces ColdCopy"
  unfolding announces_def using ColdCopy_log by blast

lemma announces_appends_only: "announces f \<Longrightarrow> appends_only f"
  unfolding announces_def appends_only_def by (metis append_Cons append_Nil)

lemma CopyFile_log:
  "appends_only (CopyFunc t) \<Longrightarrow> \<exists>es. log (snd (CopyFile t subpath fi w)) = log w @ es"
  by (simp add: CopyFile_def appends_only_def)

lemma CopyChildren_log:
  assumes f: "appends_only (CopyFunc t)"
      and r: "\<And>p w r w'. rec p w = Some (r, w') \<Longrightarrow> \<exists>es. log w' = log w @ es"
  shows "CopyChildren rec t subpath children w = Some w' \<Longrightarrow> \<exists>es. log w' = log w @ es"
proof (induction children arbitrary: w)
  case Nil
  then show ?case by simp
next
  case (Cons child rest)
  show ?case
  proof (cases "IsDir child")
    case True
    with Cons.prems obtain e w1 where
      1: "rec (Join [subpath, Name child]) w = Some (e, w1)" and
      2: "CopyChildren rec t subpath rest w1 = Some w'"
      by (auto split: option.splits)
    from r [OF 1] Cons.IH [OF 2] show ?thesis by auto
  next
    case False
    obtain e w1 where 1: "CopyFile t (Join [subpath, Name child]) (Some child) w = (e, w1)"
      by (cases "CopyFile t (Join [subpath, Name child]) (Some child) w")
    with False Cons.prems have 2: "CopyChildren rec t subpath rest w1 = Some w'"
      by simp
    from CopyFile_log [OF f, of "Join [subpath, Name child]" "Some child" w] 1
    have "\<exists>es. log w1 = log w @ es" by simp
    with Cons.IH [OF 2] show ?thesis by auto
  qed
qed

text \<open>Whatever \<open>CopyDir\<close> does, it starts by opening the source directory.\<close>

lemma CopyDir_log:
  assumes f: "appends_only (CopyFunc t)"
  shows "CopyDir n t subpath w = Some (r, w') \<Longrightarrow>
           \<exists>es. log w' = log w @ EvOpen (Join [Source t, subpath]) # es"
proof (induction n arbitrary: subpath w r w')
  case 0
  then show ?case by simp
next
  case (Suc n)
  let ?src = "Join [Source t, subpath]"
  let ?tgt = "Join [Target t, subpath]"
  obtain g w1 where g: "GetChildren ?src w = (g, w1)" by (cases "GetChildren ?src w")
  show ?case
  proof (cases g)
    case (Inl e)
    with g Suc.prems have "w' = w1" by simp
    with GetChildren_Inl [of ?src w e w1] g Inl show ?thesis
      by (auto simp: log_log_call)
  next
    case (Inr children)
    have w1: "log w1 = log w @ [EvOpen ?src, EvReaddir (resolve ?src)]"
      using GetChildren_Inr [of ?src w children w1] g Inr by (simp add: log_log_call)
    obtain err w2 where m: "os_Mkdir ?tgt (DirMode t) w1 = (err, w2)"
      by (cases "os_Mkdir ?tgt (DirMode t) w1")
    have w2: "log w2 = log w1 @ [EvMkdir ?tgt (DirMode t)]"
      using os_Mkdir_log [of ?tgt "DirMode t" w1] m by simp
    show ?thesis
    proof (cases "err \<noteq> None \<and> \<not> IsExist (the err)")
      case True
      with g Inr m Suc.prems have "w' = w2" by auto
      with w1 w2 show ?thesis by simp
    next
      case False
      with g Inr m Suc.prems have c: "CopyChildren (CopyDir n t) t subpath children w2 = Some w'"
        by (auto split: option.splits)
      have "\<exists>es. log w' = log w2 @ es"
      proof (rule CopyChildren_log [OF f _ c])
        fix p w r w'
        assume "CopyDir n t p w = Some (r, w')"
        from Suc.IH [OF this] show "\<exists>es. log w' = log w @ es" by auto
      qed
      with w1 w2 show ?thesis by auto
    qed
  qed
qed

text \<open>
  Every directory among the listed children is walked, whatever happened to the children
  before it.
\<close>

lemma CopyChildren_visits_dirs:
  assumes f: "appends_only (CopyFunc t)"
      and r: "\<And>p w r w'. rec p w = Some (r, w') \<Longrightarrow>
                 \<exists>es. log w' = log w @ EvOpen (Join [Source t, p]) # es"
  shows "CopyChildren rec t subpath children w = Some w' \<Longrightarrow>
         \<forall>c \<in> set children. IsDir c \<longrightarrow>
           EvOpen (Join [Source t, Join [subpath, Name c]]) \<in> set (log w')"
proof (induction children arbitrary: w)
  case Nil
  show ?case by simp
next
  case (Cons child rest)
  have r': "\<And>p w r w'. rec p w = Some (r, w') \<Longrightarrow> \<exists>es. log w' = log w @ es"
    using r by (metis append_Cons append_Nil append_assoc)
  show ?case
  proof (cases "IsDir child")
    case True
    with Cons.prems obtain e w1 where
      1: "rec (Join [subpath, Name child]) w = Some (e, w1)" and
      2: "CopyChildren rec t subpath rest w1 = Some w'"
      by (auto split: option.splits)
    from r [OF 1] obtain es where
      "log w1 = log w @ EvOpen (Join [Source t, Join [subpath, Name child]]) # es"
      by blast
    moreover have "\<exists>es'. log w' = log w1 @ es'"
      by (rule CopyChildren_log [OF f _ 2]) (rule r')
    then obtain es' where "log w' = log w1 @ es'"
      by blast
    ultimately have "EvOpen (Join [Source t, Join [subpath, Name child]]) \<in> set (log w')"
      by simp
    with Cons.IH [OF 2] show ?thesis by simp
  next
    case False
    obtain e w1 where 1: "CopyFile t (Join [subpath, Name child]) (Some child) w = (e, w1)"
      by (cases "CopyFile t (Join [subpath, Name child]) (Some child) w")
    with False Cons.prems have 2: "CopyChildren rec t subpath rest w1 = Some w'"
      by simp
    from Cons.IH [OF 2] False show ?thesis by simp
  qed
qed

lemma CopyDir_visits_every_subdirectory:
  assumes f: "appends_only (CopyFunc t)"
      and g: "GetChildren (Join [Source t, subpath]) w = (Inr children, w1)"
      and m: "os_Mkdir (Join [Target t, subpath]) (DirMode t) w1 = (err, w2)"
      and e: "err = None \<or> IsExist (the err)"
      and d: "CopyDir (Suc n) t subpath w = Some (r, w')"
  shows "\<forall>c \<in> set children. IsDir c \<longrightarrow>
           EvOpen (Join [Source t, Join [subpath, Name c]]) \<in> set (log w')"
proof -
  from g m e d have c: "CopyChildren (CopyDir n t) t subpath children w2 = Some w'"
    by (auto split: option.splits)
  show ?thesis
  proof (rule CopyChildren_visits_dirs [OF f _ c])
    fix p w r w'
    assume "CopyDir n t p w = Some (r, w')"
    from CopyDir_log [OF f this]
    show "\<exists>es. log w' = log w @ EvOpen (Join [Source t, p]) # es" .
  qed
qed

text \<open>
  With a strategy that opens its source first, every listed directory and every listed
  file that is not excluded is opened, after whatever was logged when the loop began.
\<close>

lemma CopyChildren_visits_all:
  assumes f: "announces (CopyFunc t)"
      and r: "\<And>p w r w'. rec p w = Some (r, w') \<Longrightarrow>
                 \<exists>es. log w' = log w @ EvOpen (Join [Source t, p]) # es"
  shows "CopyChildren rec t subpath children w = Some w' \<Longrightarrow>
         \<exists>es. log w' = log w @ es \<and>
           (\<forall>c \<in> set children. IsDir c \<or> \<not> ExcludeFile t (Some c) \<longrightarrow>
              EvOpen (Join [Source t, Join [subpath, Name c]]) \<in> set es)"
proof (induction children arbitrary: w)
  case Nil
  then show ?case by simp
next
  case (Cons child rest)
  let ?p = "Join [subpath, Name child]"
  have step: "\<exists>w1 es1. CopyChildren rec t subpath rest w1 = Some w' \<and> log w1 = log w @ es1 \<and>
        (IsDir child \<or> \<not> ExcludeFile t (Some child) \<longrightarrow> EvOpen (Join [Source t, ?p]) \<in> set es1)"
  proof (cases "IsDir child")
    case True
    with Cons.prems obtain e w1 where
      1: "rec ?p w = Some (e, w1)" and 2: "CopyChildren rec t subpath rest w1 = Some w'"
      by (auto split: option.splits)
    from r [OF 1] obtain es where "log w1 = log w @ EvOpen (Join [Source t, ?p]) # es"
      by blast
    with 2 show ?thesis by (intro exI [of _ w1] exI [of _ "EvOpen (Join [Source t, ?p]) # es"]) simp
  next
    case False
    obtain e w1 where 1: "CopyFile t ?p (Some child) w = (e, w1)"
      by (cases "CopyFile t ?p (Some child) w")
    with False Cons.prems have 2: "CopyChildren rec t subpath rest w1 = Some w'"
      by simp
    show ?thesis
    proof (cases "ExcludeFile t (Some child)")
      case True
      with 1 have "w1 = w" by (simp add: CopyFile_def)
      with 2 False True show ?thesis
        by (intro exI [of _ w1] exI [of _ "[]"]) simp
    next
      case ne: False
      from f obtain es where
        "log (snd (CopyFunc t (Join [Source t, ?p]) (Join [Target t, ?p]) (Some child) (CopyData t) w)) =
           log w @ EvOpen (Join [Source t, ?p]) # es"
        unfolding announces_def by blast
      with 1 ne have "log w1 = log w @ EvOpen (Join [Source t, ?p]) # es"
        by (simp add: CopyFile_def)
      with 2 show ?thesis
        by (intro exI [of _ w1] exI [of _ "EvOpen (Join [Source t, ?p]) # es"]) simp
    qed
  qed
  then obtain w1 es1 where
    2: "CopyChildren rec t subpath rest w1 = Some w'" and l1: "log w1 = log w @ es1" and
    h: "IsDir child \<or> \<not> ExcludeFile t (Some child) \<longrightarrow> EvOpen (Join [Source t, ?p]) \<in> set es1"
    by blast
  from Cons.IH [OF 2] obtain es2 where
    l2: "log w' = log w1 @ es2" and
    t: "\<forall>c \<in> set rest. IsDir c \<or> \<not> ExcludeFile t (Some c) \<longrightarrow>
              EvOpen (Join [Source t, Join [subpath, Name c]]) \<in> set es2"
    by blast
  from l1 l2 h t show ?case
    by (intro exI [of _ "es1 @ es2"]) auto
qed

lemma CopyDir_children_visited:
  assumes f: "announces (CopyFunc t)"
      and c: "CopyChildren (CopyDir n t) t subpath children w2 = Some w'"
  shows "\<exists>es. log w' = log w2 @ es \<and>
           (\<forall>c \<in> set children. IsDir c \<or> \<not> ExcludeFile t (Some c) \<longrightarrow>
              EvOpen (Join [Source t, Join [subpath, Name c]]) \<in> set es)"
proof (rule CopyChildren_visits_all [OF f _ c])
  fix p w r w'
  assume "CopyDir n t p w = Some (r, w')"
  from CopyDir_log [OF announces_appends_only [OF f] this]
  show "\<exists>es. log w' = log w @ EvOpen (Join [Source t, p]) # es" .
qed

text \<open>
  The depth given to \<open>CopyDir\<close> is only a bound: a walk that returns within some depth
  returns the same with any greater depth.
\<close>

lemma CopyChildren_mono:
  assumes r: "\<And>p w r. rec p w = Some r \<Longrightarrow> rec' p w = Some r"
  shows "CopyChildren rec t subpath children w = Some w' \<Longrightarrow>
         CopyChildren rec' t subpath children w = Some w'"
proof (induction children arbitrary: w)
  case Nil
  then show ?case by simp
next
  case (Cons child rest)
  show ?case
  proof (cases "IsDir child")
    case True
    with Cons.prems obtain e w1 where
      1: "rec (Join [subpath, Name child]) w = Some (e, w1)" and
      2: "CopyChildren rec t subpath rest w1 = Some w'"
      by (auto split: option.splits)
    from r [OF 1] Cons.IH [OF 2] True show ?thesis by simp
  next
    case False
    with Cons.prems Cons.IH show ?thesis by (auto split: prod.splits)
  qed
qed

lemma CopyDir_more_depth:
  "CopyDir n t subpath w = Some r \<Longrightarrow> CopyDir (Suc n) t subpath w = Some r"
proof (induction n arbitrary: subpath w r)
  case 0
  then show ?case by simp
next
  case (Suc n)
  have mono: "CopyChildren (CopyDir n t) t subpath children w2 = Some w3 \<Longrightarrow>
              CopyChildren (CopyDir (Suc n) t) t subpath children w2 = Some w3"
    for children w2 w3
    by (rule CopyChildren_mono [where rec = "CopyDir n t"]) (auto dest: Suc.IH)
  obtain g w1 where g: "GetChildren (Join [Source t, subpath]) w = (g, w1)"
    by (cases "GetChildren (Join [Source t, subpath]) w")
  show ?case
  proof (cases g)
    case (Inl e)
    with g Suc.prems show ?thesis by simp
  next
    case (Inr children)
    obtain err w2 where m: "os_Mkdir (Join [Target t, subpath]) (DirMode t) w1 = (err, w2)"
      by (cases "os_Mkdir (Join [Target t, subpath]) (DirMode t) w1")
    show ?thesis
    proof (cases "err \<noteq> None \<and> \<not> IsExist (the err)")
      case True
      with g Inr m Suc.prems have "r = (err, w2)" by simp
      with g Inr m True show ?thesis by simp
    next
      case False
      with g Inr m Suc.prems obtain w3 where
        c: "CopyChildren (CopyDir n t) t subpath children w2 = Some w3" and r: "r = (None, w3)"
        by (auto split: option.splits)
      from mono [OF c] g Inr m False r show ?thesis
        by auto
    qed
  qed
qed

lemma CopyDir_depth_mono:
  "CopyDir n t subpath w = Some r \<Longrightarrow> n \<le> m \<Longrightarrow> CopyDir m t subpath w = Some r"
proof (induction m)
  case 0
  then show ?case by simp
next
  case (Suc m)
  show ?case
  proof (cases "n = Suc m")
    case True
    with Suc.prems show ?thesis by simp
  next
    case False
    with Suc.prems have "n \<le> m" by simp
    from CopyDir_more_depth [OF Suc.IH [OF Suc.prems(1) this]] show ?thesis .
  qed
qed

text \<open>
  The result of \<open>CopyDir\<close> depends on the configuration only through the two roots, the
  directory mode, and the worlds that \<open>CopyFile\<close> leaves behind.
\<close>

lemma CopyChildren_cong:
  assumes f: "\<And>p fi w. snd (CopyFile t' p fi w) = snd (CopyFile t p fi w)"
  shows "CopyChildren rec t' subpath children w = CopyChildren rec t subpath children w"
proof (induction children arbitrary: w)
  case Nil
  show ?case by simp
next
  case (Cons child rest)
  show ?case
  proof (cases "IsDir child")
    case True
    then show ?thesis by (simp add: Cons.IH split: option.splits)
  next
    case False
    obtain e1 w1 where a: "CopyFile t' (Join [subpath, Name child]) (Some child) w = (e1, w1)"
      by (cases "CopyFile t' (Join [subpath, Name child]) (Some child) w")
    obtain e2 w2 where b: "CopyFile t (Join [subpath, Name child]) (Some child) w = (e2, w2)"
      by (cases "CopyFile t (Join [subpath, Name child]) (Some child) w")
    from f [of "Join [subpath, Name child]" "Some child" w] a b have "w1 = w2"
      by simp
    with False a b show ?thesis by (simp add: Cons.IH)
  qed
qed

lemma CopyDir_cong:
  assumes s: "Source t' = Source t" and g: "Target t' = Target t" and m: "DirMode t' = DirMode t"
      and f: "\<And>p fi w. snd (CopyFile t' p fi w) = snd (CopyFile t p fi w)"
  shows "CopyDir n t' subpath w = CopyDir n t subpath w"
proof (induction n arbitrary: subpath w)
  case 0
  show ?case by simp
next
  case (Suc n)
  have r: "CopyDir n t' = CopyDir n t"
    by (intro ext) (rule Suc.IH)
  have "CopyChildren (CopyDir n t') t' subpath children w2 =
        CopyChildren (CopyDir n t) t subpath children w2" for children w2
    unfolding r by (rule CopyChildren_cong) (rule f)
  then show ?case by (simp add: s g m split: prod.splits sum.splits)
qed

lemma CopyDir_ignores_ExcludeDir:
  "CopyDir n (t\<lparr>ExcludeDir := p\<rparr>) subpath w = CopyDir n t subpath w"
  by (rule CopyDir_cong) (simp_all add: CopyFile_def)

lemma CopyDir_ignores_strategy_error:
  "CopyDir n (t\<lparr>CopyFunc := mute (CopyFunc t)\<rparr>) subpath w = CopyDir n t subpath w"
  by (rule CopyDir_cong) (simp_all add: CopyFile_def mute_def)

text \<open>\<open>CopyDir\<close> never returns an error of the already-exists class.\<close>

lemma CopyDir_error_not_IsExist:
  "CopyDir n t subpath w = Some (Some err, w') \<Longrightarrow> \<not> IsExist err"
proof (cases n)
  case 0
  assume "CopyDir n t subpath w = Some (Some err, w')"
  with 0 show ?thesis by simp
next
  case (Suc k)
  assume r: "CopyDir n t subpath w = Some (Some err, w')"
  obtain g w1 where g: "GetChildren (Join [Source t, subpath]) w = (g, w1)"
    by (cases "GetChildren (Join [Source t, subpath]) w")
  show ?thesis
  proof (cases g)
    case (Inl e)
    with g r Suc have "e = err" by simp
    with g Inl show ?thesis
      by (auto simp: GetChildren_def os_Open_def Readdir_def Let_def IsExist_def
               split: option.splits node.splits if_splits prod.splits sum.splits)
  next
    case (Inr children)
    with g r Suc show ?thesis
      by (auto split: prod.splits option.splits if_splits)
  qed
qed

text \<open>The earlier revision: \<open>Translate\<close> does nothing, and an existing target is fatal.\<close>

lemma Translate_rev0_noop: "Translate_rev0 t w = (None, w)"
  by (simp add: Translate_rev0_def)

lemma CopyDir_rev0_existing_target:
  assumes "GetChildren (Join [Source t, subpath]) w = (Inr children, w1)"
      and "os_Mkdir (Join [Target t, subpath]) (DirMode t) w1 = (Some err, w2)"
  shows "CopyDir_rev0 (Suc n) t subpath w = Some (Some err, w2)"
  using assms by simp

section \<open>The walk returns\<close>

text \<open>
  What the listing of a source directory sees is the part of the file system below the
  source root. The walk with \<open>ColdCopy\<close> writes at the target paths only, so when neither
  root lies at or below the other that part stays as it is.
\<close>

lemma map_of_filter_key:
  "map_of (filter (\<lambda>(k, v). P k) xs) d = (if P d then map_of xs d else None)"
  by (induction xs) auto

lemma lookup_under: "prefix root d \<Longrightarrow> lookup w d = map_of (under root w) d"
  by (simp add: lookup_def under_def map_of_filter_key)

lemma entries_under:
  assumes "prefix root d"
  shows "entries w d =
           map (\<lambda>(k, nd). info_of (last k) nd)
             (filter (\<lambda>(k, nd). k \<noteq> [] \<and> butlast k = d) (under root w))"
proof -
  have "prefix root k" if "k \<noteq> []" "butlast k = d" for k
  proof -
    from that have "k = d @ [last k]" by (metis append_butlast_last_id)
    with assms show ?thesis by (metis prefix_order.trans prefixI)
  qed
  then have "filter (\<lambda>(k, nd). k \<noteq> [] \<and> butlast k = d) (filter (\<lambda>(k, nd). prefix root k) xs) =
        filter (\<lambda>(k, nd). k \<noteq> [] \<and> butlast k = d) xs" for xs :: "(string list \<times> node) list"
    by (induction xs) auto
  then show ?thesis by (simp add: entries_def under_def)
qed

lemma same_under:
  assumes "under root w' = under root w" and "prefix root d"
  shows "lookup w' d = lookup w d" and "entries w' d = entries w d"
  using assms by (simp_all add: lookup_under entries_under)

lemma filter_store:
  "\<not> P k \<Longrightarrow> filter (\<lambda>(k, nd). P k) (store k v xs) = filter (\<lambda>(k, nd). P k) xs"
  by (induction xs) auto

lemma under_put: "\<not> prefix root k \<Longrightarrow> under root (put k v w) = under root w"
  by (simp add: under_def put_def filter_store)

lemma under_log_call: "under root (log_call ev w) = under root w"
  by (simp add: under_def log_call_def)

lemma set_store: "set (store k v xs) \<subseteq> insert (k, v) (set xs)"
  by (induction xs) (auto split: if_splits)

lemma wf_put: "wf_world w \<Longrightarrow> \<forall>n \<in> set k. ok_name n \<Longrightarrow> wf_world (put k v w)"
  using set_store [of k v "files w"] by (fastforce simp: wf_world_def put_def)

lemma wf_log_call: "wf_world (log_call ev w) = wf_world w"
  by (simp add: wf_world_def log_call_def)

lemma kept_log_call: "kept root w w' \<Longrightarrow> kept root w (log_call ev w')"
  by (simp add: kept_def under_log_call wf_log_call)

lemma kept_put:
  "kept root w w' \<Longrightarrow> \<not> prefix root (resolve p) \<Longrightarrow> kept root w (put (resolve p) v w')"
  using resolve_names [of p] by (simp add: kept_def under_put wf_put)

lemma kept_os_Open: "kept root w w' \<Longrightarrow> kept root w (snd (os_Open p w'))"
  by (simp add: os_Open_world kept_log_call)

lemma kept_GetChildren: "kept root w w' \<Longrightarrow> kept root w (snd (GetChildren p w'))"
proof -
  assume k: "kept root w w'"
  obtain g w1 where g: "GetChildren p w' = (g, w1)" by (cases "GetChildren p w'")
  show ?thesis
  proof (cases g)
    case (Inl e)
    with g GetChildren_Inl [of p w' e w1] k show ?thesis by (auto intro: kept_log_call)
  next
    case (Inr cs)
    with g GetChildren_Inr [of p w' cs w1] k show ?thesis by (auto intro: kept_log_call)
  qed
qed

lemma kept_os_Mkdir:
  assumes "kept root w w'" and "\<not> prefix root (resolve p)"
  shows "kept root w (snd (os_Mkdir p perm w'))"
proof (cases "os_Mkdir p perm w'")
  case (Pair e w2)
  show ?thesis
  proof (cases e)
    case None
    with Pair os_Mkdir_None [of p perm w' w2] assms show ?thesis
      by (auto intro: kept_put kept_log_call)
  next
    case (Some err)
    with Pair os_Mkdir_Some [of p perm w' err w2] assms show ?thesis
      by (auto intro: kept_log_call)
  qed
qed

lemma kept_os_Create:
  assumes "kept root w w'" and "\<not> prefix root (resolve p)"
  shows "kept root w (snd (os_Create p w'))"
proof (cases "os_Create p w'")
  case (Pair r w2)
  show ?thesis
  proof (cases r)
    case (Inl e)
    with Pair os_Create_Inl [of p w' e w2] assms show ?thesis
      by (auto intro: kept_log_call)
  next
    case (Inr h)
    with Pair os_Create_Inr [of p w' h w2] assms show ?thesis
      by (auto intro: kept_put kept_log_call)
  qed
qed

lemma kept_io_Copy:
  assumes "kept root w w'" and "\<not> prefix root (resolve p)"
  shows "kept root w (snd (io_Copy (resolve p) in_h w'))"
  using assms
  by (auto simp: io_Copy_def write_at0_def Let_def lookup_log_call
           intro: kept_put kept_log_call split: option.splits node.splits)

lemma kept_ColdCopy:
  assumes k: "kept root w w'" and t: "\<not> prefix root (resolve target)"
  shows "kept root w (snd (ColdCopy source target fi data w'))"
proof (cases "os_Open source w'")
  case (Pair r w1)
  from kept_os_Open [OF k, of source] Pair have k1: "kept root w w1" by simp
  show ?thesis
  proof (cases r)
    case (Inl e)
    with Pair k1 show ?thesis by (simp add: ColdCopy_def)
  next
    case (Inr in_h)
    show ?thesis
    proof (cases "os_Create target w1")
      case c: (Pair r2 w2)
      from kept_os_Create [OF k1 t] c have k2: "kept root w w2" by simp
      show ?thesis
      proof (cases r2)
        case (Inl e)
        with Pair Inr c k2 show ?thesis by (simp add: ColdCopy_def)
      next
        case out: (Inr out_h)
        from os_Create_Inr [of target w1 out_h w2] c out have "out_h = resolve target" by simp
        with kept_io_Copy [OF k2 t, of in_h] Pair Inr c out show ?thesis
          by (simp add: ColdCopy_def)
      qed
    qed
  qed
qed

lemma Name_info_of: "Name (info_of n nd) = n"
  by (simp add: info_of_def split: node.splits)

lemma entries_member:
  assumes "c \<in> set (entries w d)"
  shows "\<exists>nd. (d @ [Name c], nd) \<in> set (files w)"
proof -
  from assms obtain k nd where
    m: "(k, nd) \<in> set (files w)" and k: "k \<noteq> []" "butlast k = d" and c: "c = info_of (last k) nd"
    by (auto simp: entries_def)
  from k have "k = d @ [last k]" by (metis append_butlast_last_id)
  with m c show ?thesis by (auto simp: Name_info_of)
qed

lemma not_under_target:
  assumes "\<not> prefix s0 t0" and "\<not> prefix t0 s0"
  shows "\<not> prefix s0 (t0 @ p)"
proof
  assume "prefix s0 (t0 @ p)"
  then have "prefix s0 t0 \<or> (\<exists>us. s0 = t0 @ us \<and> prefix us p)"
    by (simp add: prefix_append)
  with assms show False by auto
qed

lemma CopyChildren_returns:
  "(\<And>c w'. c \<in> set children \<Longrightarrow> IsDir c \<Longrightarrow> I w' \<Longrightarrow>
       \<exists>r w''. rec (Join [subpath, Name c]) w' = Some (r, w'') \<and> I w'') \<Longrightarrow>
   (\<And>c w'. c \<in> set children \<Longrightarrow> \<not> IsDir c \<Longrightarrow> I w' \<Longrightarrow>
       I (snd (CopyFile t (Join [subpath, Name c]) (Some c) w'))) \<Longrightarrow>
   I w \<Longrightarrow> \<exists>w'. CopyChildren rec t subpath children w = Some w' \<and> I w'"
proof (induction children arbitrary: w)
  case Nil
  then show ?case by simp
next
  case (Cons child rest)
  have r: "\<exists>r w''. rec (Join [subpath, Name c]) w' = Some (r, w'') \<and> I w''"
    if "c \<in> set rest" "IsDir c" "I w'" for c w'
    using Cons.prems(1) [of c w'] that by simp
  have f: "I (snd (CopyFile t (Join [subpath, Name c]) (Some c) w'))"
    if "c \<in> set rest" "\<not> IsDir c" "I w'" for c w'
    using Cons.prems(2) [of c w'] that by simp
  show ?case
  proof (cases "IsDir child")
    case True
    from Cons.prems(1) [of child w] True Cons.prems(3) obtain e w1 where
      1: "rec (Join [subpath, Name child]) w = Some (e, w1)" and 2: "I w1"
      by auto
    from Cons.IH [OF r f 2] obtain w' where
      "CopyChildren rec t subpath rest w1 = Some w'" "I w'"
      by blast
    with True 1 show ?thesis by simp
  next
    case False
    obtain e w1 where 1: "CopyFile t (Join [subpath, Name child]) (Some child) w = (e, w1)"
      by (cases "CopyFile t (Join [subpath, Name child]) (Some child) w")
    from Cons.prems(2) [of child w] False Cons.prems(3) 1 have 2: "I w1"
      by simp
    from Cons.IH [OF r f 2] obtain w' where
      "CopyChildren rec t subpath rest w1 = Some w'" "I w'"
      by blast
    with False 1 show ?thesis by simp
  qed
qed

text \<open>
  A directory \<open>ns\<close> below the source root is walked within any depth that exceeds what
  the longest path below the source root has left under it.
\<close>

lemma CopyDir_returns:
  fixes t :: "'d Translator"
  assumes cf: "CopyFunc t = ColdCopy"
      and s: "Source t \<noteq> []" and g: "Target t \<noteq> []"
      and i1: "\<not> prefix (resolve (Source t)) (resolve (Target t))"
      and i2: "\<not> prefix (resolve (Target t)) (resolve (Source t))"
      and M: "\<forall>(k, nd) \<in> set (under (resolve (Source t)) w0). length k \<le> M"
  shows "kept (resolve (Source t)) w0 w \<Longrightarrow> \<forall>m \<in> set ns. ok_name m \<Longrightarrow> 0 < n \<Longrightarrow>
         M < length (resolve (Source t)) + length ns + n \<Longrightarrow>
         \<exists>r w'. CopyDir n t (join_slash ns) w = Some (r, w') \<and> kept (resolve (Source t)) w0 w'"
proof (induction n arbitrary: ns w)
  case 0
  then show ?case by simp
next
  case (Suc n)
  let ?s0 = "resolve (Source t)"
  let ?t0 = "resolve (Target t)"
  let ?sub = "join_slash ns"
  let ?src = "Join [Source t, ?sub]"
  let ?tgt = "Join [Target t, ?sub]"
  note k = Suc.prems(1) and ok = Suc.prems(2)
  have rs: "resolve ?src = ?s0 @ ns" by (rule resolve_Join [OF s ok])
  have rt: "resolve ?tgt = ?t0 @ ns" by (rule resolve_Join [OF g ok])
  have nt: "\<not> prefix ?s0 (resolve ?tgt)"
    unfolding rt by (rule not_under_target [OF i1 i2])
  obtain gr w1 where gc: "GetChildren ?src w = (gr, w1)" by (cases "GetChildren ?src w")
  from kept_GetChildren [OF k, of ?src] gc have k1: "kept ?s0 w0 w1" by simp
  show ?case
  proof (cases gr)
    case (Inl e)
    with gc k1 show ?thesis by simp
  next
    case (Inr children)
    from GetChildren_Inr [of ?src w children w1] gc Inr
    have ch: "children = entries w (?s0 @ ns)" by (simp add: rs)
    obtain err w2 where m: "os_Mkdir ?tgt (DirMode t) w1 = (err, w2)"
      by (cases "os_Mkdir ?tgt (DirMode t) w1")
    from kept_os_Mkdir [OF k1 nt, of "DirMode t"] m have k2: "kept ?s0 w0 w2" by simp
    show ?thesis
    proof (cases "err \<noteq> None \<and> \<not> IsExist (the err)")
      case True
      with gc Inr m k2 show ?thesis by simp
    next
      case False
      have child: "ok_name (Name c) \<and> 0 < n" if c: "c \<in> set children" for c
      proof -
        from entries_member c ch obtain nd where
          mem: "(?s0 @ ns @ [Name c], nd) \<in> set (files w)" by fastforce
        with k have "ok_name (Name c)" by (fastforce simp: kept_def wf_world_def)
        moreover from mem have "(?s0 @ ns @ [Name c], nd) \<in> set (under ?s0 w)"
          by (simp add: under_def)
        with k have "(?s0 @ ns @ [Name c], nd) \<in> set (under ?s0 w0)"
          by (simp add: kept_def)
        with M have "length (?s0 @ ns @ [Name c]) \<le> M" by blast
        with Suc.prems(4) have "0 < n" by simp
        ultimately show ?thesis by simp
      qed
      have "\<exists>w'. CopyChildren (CopyDir n t) t ?sub children w2 = Some w' \<and> kept ?s0 w0 w'"
      proof (rule CopyChildren_returns [where I = "kept ?s0 w0"])
        fix c w'
        assume c: "c \<in> set children" and kw: "kept ?s0 w0 w'"
        from child [OF c] have okc: "ok_name (Name c)" and n: "0 < n" by simp_all
        have j: "Join [?sub, Name c] = join_slash (ns @ [Name c])"
          by (rule Join_sub [OF ok okc])
        have ok': "\<forall>m \<in> set (ns @ [Name c]). ok_name m" using ok okc by simp
        have "M < length ?s0 + length (ns @ [Name c]) + n"
          using Suc.prems(4) by simp
        from Suc.IH [OF kw ok' n this] j
        show "\<exists>r w''. CopyDir n t (Join [?sub, Name c]) w' = Some (r, w'') \<and> kept ?s0 w0 w''"
          by simp
      next
        fix c w'
        assume c: "c \<in> set children" and kw: "kept ?s0 w0 w'"
        from child [OF c] have okc: "ok_name (Name c)" by simp
        have j: "Join [?sub, Name c] = join_slash (ns @ [Name c])"
          by (rule Join_sub [OF ok okc])
        have ok': "\<forall>m \<in> set (ns @ [Name c]). ok_name m" using ok okc by simp
        have "resolve (Join [Target t, join_slash (ns @ [Name c])]) = ?t0 @ ns @ [Name c]"
          using resolve_Join [OF g ok'] by simp
        then have "\<not> prefix ?s0 (resolve (Join [Target t, join_slash (ns @ [Name c])]))"
          using not_under_target [OF i1 i2, of "ns @ [Name c]"] by simp
        from kept_ColdCopy [OF kw this, of "Join [Source t, join_slash (ns @ [Name c])]"
            "Some c" "CopyData t"] kw
        show "kept ?s0 w0 (snd (CopyFile t (Join [?sub, Name c]) (Some c) w'))"
          by (simp add: CopyFile_def cf j)
      next
        show "kept ?s0 w0 w2" by (rule k2)
      qed
      with gc Inr m False show ?thesis by auto
    qed
  qed
qed

text \<open>
  The sum of the lengths of all paths bounds the depth of the tree: with more depth than
  that, \<open>Translate\<close> returns.
\<close>

theorem Translate_returns:
  fixes t :: "'d Translator"
  assumes "CopyFunc t = ColdCopy"
      and "Source t \<noteq> []" and "Target t \<noteq> []"
      and "\<not> prefix (resolve (Source t)) (resolve (Target t))"
      and "\<not> prefix (resolve (Target t)) (resolve (Source t))"
      and "wf_world w"
  shows "\<exists>r w'. Translate (Suc (sum_list (map (\<lambda>(k, nd). length k) (files w)))) t w = Some (r, w')"
proof -
  let ?M = "sum_list (map (\<lambda>(k, nd). length k) (files w))"
  have M: "\<forall>(k, nd) \<in> set (under (resolve (Source t)) w). length k \<le> ?M"
  proof (clarify)
    fix k nd
    assume "(k, nd) \<in> set (under (resolve (Source t)) w)"
    then have "(k, nd) \<in> set (files w)" by (simp add: under_def)
    then have "length k \<in> set (map (\<lambda>(k, nd). length k) (files w))" by force
    then show "length k \<le> ?M" by (simp add: member_le_sum_list)
  qed
  have k: "kept (resolve (Source t)) w w"
    using assms(6) by (simp add: kept_def)
  from CopyDir_returns [OF assms(1-5) M k, of "[]" "Suc ?M"]
  show ?thesis by (auto simp: Translate_def)
qed

text \<open>
  What \<open>Translate\<close> does for every configuration: it is \<open>CopyDir\<close> with the empty
  subpath. With a copy strategy that only adds to the log of calls, a call that returns
  has opened the source root, has left a different world behind, and, when it returns
  success, has opened every directory the source root lists. It does return: with
  \<open>ColdCopy\<close> as the strategy, non-empty roots neither of which lies at or below the other,
  and a well-formed file system, every depth above the sum of the lengths of the paths in
  the file system gives one and the same result.
\<close>

theorem Translate_walks_from_root:
  fixes t :: "'d Translator"
  shows
  "Translate n t w = CopyDir n t '''' w \<and>
   (appends_only (CopyFunc t) \<longrightarrow>
      (\<forall>r w'. Translate n t w = Some (r, w') \<longrightarrow>
         (\<exists>es. log w' = log w @ EvOpen (Join [Source t, '''']) # es) \<and> w' \<noteq> w \<and>
         (r = None \<longrightarrow>
            (\<forall>c \<in> set (entries w (resolve (Join [Source t, '''']))). IsDir c \<longrightarrow>
               EvOpen (Join [Source t, Join ['''', Name c]]) \<in> set (log w'))))) \<and>
   (CopyFunc t = ColdCopy \<and> Source t \<noteq> [] \<and> Target t \<noteq> [] \<and>
    \<not> prefix (resolve (Source t)) (resolve (Target t)) \<and>
    \<not> prefix (resolve (Target t)) (resolve (Source t)) \<and> wf_world w \<longrightarrow>
      (\<exists>r w'. \<forall>m. sum_list (map (\<lambda>(k, nd). length k) (files w)) < m \<longrightarrow>
         Translate m t w = Some (r, w')))"
proof -
  have walk: "(\<exists>es. log w' = log w @ EvOpen (Join [Source t, '''']) # es) \<and> w' \<noteq> w \<and>
         (r = None \<longrightarrow>
            (\<forall>c \<in> set (entries w (resolve (Join [Source t, '''']))). IsDir c \<longrightarrow>
               EvOpen (Join [Source t, Join ['''', Name c]]) \<in> set (log w')))"
    if f: "appends_only (CopyFunc t)" and d: "Translate n t w = Some (r, w')" for r w'
  proof -
    from d have c: "CopyDir n t [] w = Some (r, w')" by (simp add: Translate_def)
    from CopyDir_log [OF f c] have 1: "\<exists>es. log w' = log w @ EvOpen (Join [Source t, '''']) # es" .
    then have 2: "w' \<noteq> w" by auto
    have 3: "\<forall>c \<in> set (entries w (resolve (Join [Source t, '''']))). IsDir c \<longrightarrow>
               EvOpen (Join [Source t, Join ['''', Name c]]) \<in> set (log w')" if "r = None"
    proof -
      from c obtain k where n: "n = Suc k" by (cases n) auto
      obtain g w1 where g: "GetChildren (Join [Source t, []]) w = (g, w1)"
        by (cases "GetChildren (Join [Source t, []]) w")
      from g c n that obtain children where i: "g = Inr children"
        by (cases g) auto
      obtain err w2 where m: "os_Mkdir (Join [Target t, []]) (DirMode t) w1 = (err, w2)"
        by (cases "os_Mkdir (Join [Target t, []]) (DirMode t) w1")
      from g i m c n that have e: "err = None \<or> IsExist (the err)"
        by (auto split: if_splits)
      from GetChildren_Inr [of "Join [Source t, []]" w children w1] g i
      have "children = entries w (resolve (Join [Source t, []]))" by simp
      moreover from g i have "GetChildren (Join [Source t, []]) w = (Inr children, w1)"
        by simp
      moreover from c n have "CopyDir (Suc k) t [] w = Some (r, w')"
        by simp
      ultimately show ?thesis
        using CopyDir_visits_every_subdirectory [OF f _ m e] by blast
    qed
    from 1 2 3 show ?thesis by blast
  qed
  have returns: "\<exists>r w'. \<forall>m. sum_list (map (\<lambda>(k, nd). length k) (files w)) < m \<longrightarrow>
         Translate m t w = Some (r, w')"
    if "CopyFunc t = ColdCopy" "Source t \<noteq> []" "Target t \<noteq> []"
       "\<not> prefix (resolve (Source t)) (resolve (Target t))"
       "\<not> prefix (resolve (Target t)) (resolve (Source t))" "wf_world w"
  proof -
    let ?M = "sum_list (map (\<lambda>(k, nd). length k) (files w))"
    from Translate_returns [OF that] obtain r w' where
      "CopyDir (Suc ?M) t [] w = Some (r, w')"
      by (auto simp: Translate_def)
    then have "Translate m t w = Some (r, w')" if "?M < m" for m
      using CopyDir_depth_mono [of "Suc ?M" t "[]" w "(r, w')" m] that
      by (simp add: Translate_def)
    then show ?thesis by blast
  qed
  from walk returns show ?thesis by (simp add: Translate_def)
qed

theorem Translate_walks_from_root_example:
  "appends_only (CopyFunc plain) \<and>
   CopyFunc plain = ColdCopy \<and> Source plain = ''src'' \<and> Target plain = ''out'' \<and>
   \<not> prefix (resolve ''src'') (resolve ''out'') \<and>
   \<not> prefix (resolve ''out'') (resolve ''src'') \<and> wf_world site \<and>
   sum_list (map (\<lambda>(k, nd). length k) (files site)) = 10 \<and>
   Translate 11 plain site = Some (None, site_mirrored) \<and>
   Translate 2 plain site = Some (None, site_mirrored) \<and>
   Translate 2 plain site = CopyDir 2 plain '''' site \<and>
   (\<exists>r w'. \<forall>m. 10 < m \<longrightarrow> Translate m plain site = Some (r, w')) \<and>
   site_mirrored \<noteq> site \<and>
   (\<exists>es. log site_mirrored = log site @ EvOpen ''src'' # es) \<and>
   \<lparr>Name = ''d'', IsDir = True, Size = 0, Mode = 493\<rparr> \<in> set (entries site [''src'']) \<and>
   EvOpen ''src/d'' \<in> set (log site_mirrored)"
proof -
  let ?d = "\<lparr>Name = ''d'', IsDir = True, Size = 0, Mode = 493\<rparr>"
  have a: "appends_only (CopyFunc plain)"
    by (simp add: plain_def New_def appends_only_ColdCopy)
  have p: "CopyFunc plain = ColdCopy"
    by (simp add: plain_def New_def)
  have q: "Source plain = ''src''" "Target plain = ''out''"
    "\<not> prefix (resolve ''src'') (resolve ''out'')"
    "\<not> prefix (resolve ''out'') (resolve ''src'')" "wf_world site"
    "sum_list (map (\<lambda>(k, nd). length k) (files site)) = 10"
    by code_simp+
  have r: "Translate 2 plain site = Some (None, site_mirrored)"
    by code_simp
  have r': "Translate 11 plain site = Some (None, site_mirrored)"
    by code_simp
  have j: "Join [Source plain, ''''] = ''src''" "resolve ''src'' = [''src'']"
    "Join [Source plain, Join ['''', Name ?d]] = ''src/d''"
    by code_simp+
  have d: "?d \<in> set (entries site [''src''])" "IsDir ?d"
    by code_simp+
  note T = Translate_walks_from_root [of 2 plain site]
  from T a r
  have 1: "Translate 2 plain site = CopyDir 2 plain '''' site"
    and 2: "\<exists>es. log site_mirrored = log site @ EvOpen (Join [Source plain, '''']) # es"
    and 3: "site_mirrored \<noteq> site"
    and 4: "\<forall>c \<in> set (entries site (resolve (Join [Source plain, '''']))). IsDir c \<longrightarrow>
              EvOpen (Join [Source plain, Join ['''', Name c]]) \<in> set (log site_mirrored)"
    by blast+
  from T p q have 6: "\<exists>r w'. \<forall>m. 10 < m \<longrightarrow> Translate m plain site = Some (r, w')"
    by simp
  have e: "entries site (resolve (Join [Source plain, ''''])) = entries site [''src'']"
    by (simp only: j)
  from 4 have "\<forall>c \<in> set (entries site [''src'']). IsDir c \<longrightarrow>
              EvOpen (Join [Source plain, Join ['''', Name c]]) \<in> set (log site_mirrored)"
    unfolding e .
  from bspec [OF this d(1)] d(2)
  have "EvOpen (Join [Source plain, Join ['''', Name ?d]]) \<in> set (log site_mirrored)"
    by blast
  then have 5: "EvOpen ''src/d'' \<in> set (log site_mirrored)"
    unfolding j(3) .
  from 2 have o2: "\<exists>es. log site_mirrored = log site @ EvOpen ''src'' # es"
    unfolding j(1) .
  from a p q r r' 1 o2 3 5 6 d(1) show ?thesis by blast
qed

section \<open>The claims\<close>

text \<open>
  C1. The claim: \<open>Translate\<close> walks the whole source tree and returns success or the first
  error encountered; it is not a no-op. In \<open>site\<close> the listing of \<open>src\<close> and the creation
  of \<open>out\<close> succeed and the copy of the first child \<open>a\<close> fails with \<open>EACCES\<close>: this is
  the first error of the walk, and \<open>Translate\<close> returns success, at depth 2 as at depth
  11. The \<open>Translate\<close> of the earlier revision returns success and leaves the world as it
  was, although \<open>src\<close> has entries to walk.
\<close>

theorem Translate_returns_nil_after_failure:
  "fst (GetChildren ''src'' site) =
     Inr [\<lparr>Name = ''a'', IsDir = False, Size = 1, Mode = 0\<rparr>,
          \<lparr>Name = ''b'', IsDir = False, Size = 1, Mode = 420\<rparr>,
          \<lparr>Name = ''d'', IsDir = True, Size = 0, Mode = 493\<rparr>] \<and>
   fst (os_Mkdir ''out'' 493 (snd (GetChildren ''src'' site))) = None \<and>
   fst (CopyFile plain ''a'' (Some \<lparr>Name = ''a'', IsDir = False, Size = 1, Mode = 0\<rparr>)
          (snd (os_Mkdir ''out'' 493 (snd (GetChildren ''src'' site))))) = Some EACCES \<and>
   Translate 2 plain site = Some (None, site_mirrored) \<and>
   Translate 11 plain site = Some (None, site_mirrored) \<and>
   Translate_rev0 plain site = (None, site) \<and>
   entries site [''src''] \<noteq> []"
  by code_simp

text \<open>
  C2. The claim: when the N-th child of a directory fails to copy, \<open>CopyDir\<close> stops, the error
  comes out of \<open>Translate\<close>, and the children after it are not attempted. The code drops
  the error that \<open>CopyFile\<close> (and the recursive \<open>CopyDir\<close>) returns. In \<open>site\<close> the first
  child \<open>a\<close> of \<open>src\<close> is unreadable and its copy fails with \<open>EACCES\<close>; the walk goes on
  to \<open>b\<close> and to \<open>d\<close>, copies both, and \<open>Translate\<close> returns success.
\<close>

theorem CopyDir_drops_child_error:
  "entries site [''src''] =
     [\<lparr>Name = ''a'', IsDir = False, Size = 1, Mode = 0\<rparr>,
      \<lparr>Name = ''b'', IsDir = False, Size = 1, Mode = 420\<rparr>,
      \<lparr>Name = ''d'', IsDir = True, Size = 0, Mode = 493\<rparr>] \<and>
   fst (CopyFile plain ''a'' (Some \<lparr>Name = ''a'', IsDir = False, Size = 1, Mode = 0\<rparr>)
          (snd (os_Mkdir ''out'' 493 (snd (GetChildren ''src'' site))))) = Some EACCES \<and>
   CopyDir 2 plain '''' site = Some (None, site_mirrored) \<and>
   Translate 2 plain site = Some (None, site_mirrored) \<and>
   file_bytes site_mirrored ''out/b'' = Some ''B'' \<and>
   file_bytes site_mirrored ''out/d/c'' = Some ''C''"
  by code_simp

text \<open>
  C3. The claim: a directory for which \<open>ExcludeDir\<close> returns true is skipped with everything
  below it. The code never calls \<open>ExcludeDir\<close>. With an \<open>ExcludeDir\<close> that excludes every
  directory, \<open>Translate\<close> on \<open>site\<close> still lists \<open>src/d\<close>, creates \<open>out/d\<close> and copies
  \<open>src/d/c\<close>: the result is the one of the default configuration.
\<close>

theorem CopyDir_never_consults_ExcludeDir:
  "ExcludeDir (plain\<lparr>ExcludeDir := (\<lambda>fi. True)\<rparr>)
     (Some \<lparr>Name = ''d'', IsDir = True, Size = 0, Mode = 493\<rparr>) \<and>
   Translate 2 (plain\<lparr>ExcludeDir := (\<lambda>fi. True)\<rparr>) site = Some (None, site_mirrored) \<and>
   is_dir site_mirrored ''out/d'' \<and>
   file_bytes site_mirrored ''out/d/c'' = Some ''C'' \<and>
   EvReaddir [''src'', ''d''] \<in> set (log site_mirrored)"
  by code_simp




text \<open>
  C5. \<open>ColdCopy\<close> opens the source, creates or truncates the target, and streams the
  source into it; the error of whichever step fails is returned. On success the target
  holds exactly the bytes of the source: the two paths name files with equal bytes
  afterwards, and these are the bytes the source had before unless both paths name the
  same file. The calls made are the open, the create and the copy, in this order.
\<close>

theorem ColdCopy_copies_bytes:
  "(\<forall>err w1. os_Open source w = (Inl err, w1) \<longrightarrow>
      ColdCopy source target fi data w = (Some err, w1)) \<and>
   (\<forall>in_h w1 err w2. os_Open source w = (Inr in_h, w1) \<and> os_Create target w1 = (Inl err, w2) \<longrightarrow>
      ColdCopy source target fi data w = (Some err, w2)) \<and>
   (\<forall>in_h w1 out_h w2. os_Open source w = (Inr in_h, w1) \<and> os_Create target w1 = (Inr out_h, w2) \<longrightarrow>
      ColdCopy source target fi data w = io_Copy out_h in_h w2) \<and>
   (\<forall>w'. ColdCopy source target fi data w = (None, w') \<longrightarrow>
      (\<exists>bs. file_bytes w' target = Some bs \<and> file_bytes w' source = Some bs \<and>
            (resolve source \<noteq> resolve target \<longrightarrow> file_bytes w source = Some bs)) \<and>
      log w' = log w @ [EvOpen source, EvCreate target, EvCopy (resolve target) (resolve source)])"
proof (intro conjI allI impI)
  fix w'
  assume ok: "ColdCopy source target fi data w = (None, w')"
  then obtain in_h w1 out_h w2 where
    o: "os_Open source w = (Inr in_h, w1)" and
    c: "os_Create target w1 = (Inr out_h, w2)" and
    s: "io_Copy out_h in_h w2 = (None, w')"
    by (auto simp: ColdCopy_def split: prod.splits sum.splits)
  from o have in_h: "in_h = resolve source" and w1: "w1 = log_call (EvOpen source) w"
    using os_Open_Inr [OF o] os_Open_world [of source w] by simp_all
  from os_Create_Inr [OF c] obtain m0 where
    out_h: "out_h = resolve target" and
    w2: "w2 = put out_h (File m0 []) (log_call (EvCreate target) w1)"
    by auto
  from io_Copy_None [OF s] obtain m c m' c' where
    src: "lookup w2 in_h = Some (File m c)" and
    tgt: "lookup w2 out_h = Some (File m' c')" and
    w': "w' = put out_h (File m' (c @ drop (length c) c')) (log_call (EvCopy out_h in_h) w2)"
    by auto
  from tgt w2 have c': "c' = []" by (simp add: lookup_put)
  have 1: "file_bytes w' target = Some c"
    using w' c' out_h by (simp add: file_bytes_def lookup_put)
  have 2: "file_bytes w' source = Some c"
    using w' c' out_h in_h src by (simp add: file_bytes_def lookup_put lookup_log_call)
  have 3: "file_bytes w source = Some c" if "resolve source \<noteq> resolve target"
    using that src w2 w1 out_h in_h by (simp add: file_bytes_def lookup_put lookup_log_call)
  from 1 2 3 show "\<exists>bs. file_bytes w' target = Some bs \<and> file_bytes w' source = Some bs \<and>
            (resolve source \<noteq> resolve target \<longrightarrow> file_bytes w source = Some bs)"
    by blast
  show "log w' = log w @ [EvOpen source, EvCreate target, EvCopy (resolve target) (resolve source)]"
    using w' w2 w1 out_h in_h by (simp add: log_put log_log_call)
qed (simp_all add: ColdCopy_def)

theorem ColdCopy_copies_bytes_witness:
  "os_Open ''src/a'' site = (Inl EACCES, log_call (EvOpen ''src/a'') site) \<and>
   ColdCopy ''src/a'' ''out/a'' None (None :: unit option) site =
     (Some EACCES, log_call (EvOpen ''src/a'') site) \<and>
   os_Open ''src/b'' site = (Inr [''src'', ''b''], log_call (EvOpen ''src/b'') site) \<and>
   os_Create ''src/d'' (log_call (EvOpen ''src/b'') site) =
     (Inl EISDIR, log_call (EvCreate ''src/d'') (log_call (EvOpen ''src/b'') site)) \<and>
   ColdCopy ''src/b'' ''src/d'' None (None :: unit option) site =
     (Some EISDIR, log_call (EvCreate ''src/d'') (log_call (EvOpen ''src/b'') site)) \<and>
   fst (ColdCopy ''src/b'' ''b2'' None (None :: unit option) site) = None \<and>
   resolve ''src/b'' \<noteq> resolve ''b2'' \<and>
   file_bytes site ''src/b'' = Some ''B'' \<and>
   file_bytes (snd (ColdCopy ''src/b'' ''b2'' None (None :: unit option) site)) ''b2'' = Some ''B'' \<and>
   log (snd (ColdCopy ''src/b'' ''b2'' None (None :: unit option) site)) =
     [EvOpen ''src/b'', EvCreate ''b2'', EvCopy [''b2''] [''src'', ''b'']]"
proof -
  let ?w1 = "log_call (EvOpen ''src/b'') site"
  let ?w' = "snd (ColdCopy ''src/b'' ''b2'' None (None :: unit option) site)"
  have o1: "os_Open ''src/a'' site = (Inl EACCES, log_call (EvOpen ''src/a'') site)"
    by code_simp
  have o2: "os_Open ''src/b'' site = (Inr [''src'', ''b''], ?w1)"
    by code_simp
  have c2: "os_Create ''src/d'' ?w1 = (Inl EISDIR, log_call (EvCreate ''src/d'') ?w1)"
    by code_simp
  have ok: "fst (ColdCopy ''src/b'' ''b2'' None (None :: unit option) site) = None"
    by code_simp
  then have ok': "ColdCopy ''src/b'' ''b2'' None (None :: unit option) site = (None, ?w')"
    by (simp add: prod_eq_iff)
  have d: "resolve ''src/b'' \<noteq> resolve ''b2''" "resolve ''src/b'' = [''src'', ''b'']"
    "resolve ''b2'' = [''b2'']" "log site = []"
    by code_simp+
  have b: "file_bytes site ''src/b'' = Some ''B''"
    by code_simp
  note t1 = ColdCopy_copies_bytes [where source = "''src/a''" and target = "''out/a''"
      and w = site and fi = None and data = "None :: unit option"]
  note t2 = ColdCopy_copies_bytes [where source = "''src/b''" and target = "''src/d''"
      and w = site and fi = None and data = "None :: unit option"]
  note t3 = ColdCopy_copies_bytes [where source = "''src/b''" and target = "''b2''"
      and w = site and fi = None and data = "None :: unit option"]
  from t1 o1 have r1: "ColdCopy ''src/a'' ''out/a'' None (None :: unit option) site =
      (Some EACCES, log_call (EvOpen ''src/a'') site)"
    by blast
  from t2 o2 c2 have r2: "ColdCopy ''src/b'' ''src/d'' None (None :: unit option) site =
      (Some EISDIR, log_call (EvCreate ''src/d'') ?w1)"
    by blast
  from t3 ok' obtain bs where
    r3: "file_bytes ?w' ''b2'' = Some bs"
        "resolve ''src/b'' \<noteq> resolve ''b2'' \<longrightarrow> file_bytes site ''src/b'' = Some bs"
        "log ?w' = log site @ [EvOpen ''src/b'', EvCreate ''b2'',
                               EvCopy (resolve ''b2'') (resolve ''src/b'')]"
    by blast
  from r3 d b have "file_bytes ?w' ''b2'' = Some ''B''" by simp
  moreover from r3 d have "log ?w' = [EvOpen ''src/b'', EvCreate ''b2'', EvCopy [''b2''] [''src'', ''b'']]"
    by simp
  ultimately show ?thesis using o1 o2 c2 ok d b r1 r2 by simp
qed

text \<open>
  C6. \<open>TemplateCopy\<close> looks at the suffix of the source path. Without \<open>.tmpl\<close> it is
  \<open>ColdCopy\<close> on the same source and target with \<open>nil\<close> metadata and \<open>nil\<close> data. With
  \<open>.tmpl\<close> the file it creates is the target with the suffix \<open>.tmpl\<close> trimmed; an error of
  the creation or of parsing the source is returned; otherwise the source as read is
  parsed, the template is executed on the user data, the created file holds what the
  execution wrote, and the error of the execution, if any, is returned.
\<close>

theorem TemplateCopy_dispatch:
  "(\<not> HasSuffix source ''.tmpl'' \<longrightarrow>
      TemplateCopy (eng :: ('t, 'd) engine) source target fi data w =
        ColdCopy source target None (None :: 'd option) w) \<and>
   (HasSuffix source ''.tmpl'' \<longrightarrow>
      (\<forall>err w1. os_Create (TrimSuffix target ''.tmpl'') w = (Inl err, w1) \<longrightarrow>
         TemplateCopy eng source target fi data w = (Some err, w1)) \<and>
      (\<forall>out_h w1. os_Create (TrimSuffix target ''.tmpl'') w = (Inr out_h, w1) \<longrightarrow>
         (\<forall>err w2. ParseFiles eng source w1 = (Inl err, w2) \<longrightarrow>
            TemplateCopy eng source target fi data w = (Some err, w2)) \<and>
         (\<forall>tmpl w2. ParseFiles eng source w1 = (Inr tmpl, w2) \<longrightarrow>
            (\<exists>c. file_bytes w1 source = Some c \<and> parse eng c = Inr tmpl) \<and>
            (\<exists>w'. TemplateCopy eng source target fi data w = (snd (execute eng tmpl data), w') \<and>
                  file_bytes w' (TrimSuffix target ''.tmpl'') = Some (fst (execute eng tmpl data)))))) \<and>
   (HasSuffix target ''.tmpl'' \<longrightarrow> TrimSuffix target ''.tmpl'' @ ''.tmpl'' = target)"
proof (intro conjI allI impI)
  fix out_h w1 tmpl w2
  assume s: "HasSuffix source ''.tmpl''"
     and c: "os_Create (TrimSuffix target ''.tmpl'') w = (Inr out_h, w1)"
     and p: "ParseFiles eng source w1 = (Inr tmpl, w2)"
  from ParseFiles_Inr [OF p]
  show "\<exists>c. file_bytes w1 source = Some c \<and> parse eng c = Inr tmpl" .
  from os_Create_Inr [OF c] obtain m where
    h: "out_h = resolve (TrimSuffix target ''.tmpl'')" and
    w1: "w1 = put out_h (File m []) (log_call (EvCreate (TrimSuffix target ''.tmpl'')) w)"
    by auto
  from p have w2: "w2 = log_call (EvParseFiles source) w1"
    using ParseFiles_world [of eng source w1] by simp
  have l: "lookup w2 out_h = Some (File m [])"
    by (simp add: w2 w1 lookup_log_call lookup_put)
  let ?w' = "put out_h (File m (fst (execute eng tmpl data))) (log_call (EvExecute out_h) w2)"
  have "TemplateCopy eng source target fi data w = (snd (execute eng tmpl data), ?w')"
    using s c p Execute_fresh [OF l] by (simp add: TemplateCopy_def)
  moreover have "file_bytes ?w' (TrimSuffix target ''.tmpl'') = Some (fst (execute eng tmpl data))"
    by (simp add: file_bytes_def h lookup_put)
  ultimately
  show "\<exists>w'. TemplateCopy eng source target fi data w = (snd (execute eng tmpl data), w') \<and>
             file_bytes w' (TrimSuffix target ''.tmpl'') = Some (fst (execute eng tmpl data))"
    by blast
qed (simp_all add: TemplateCopy_def TrimSuffix_append)

theorem TemplateCopy_dispatch_witness:
  "\<not> HasSuffix ''in/readme.txt'' ''.tmpl'' \<and>
   TemplateCopy literal_engine ''in/readme.txt'' ''out/readme.txt'' None None pages =
     ColdCopy ''in/readme.txt'' ''out/readme.txt'' None (None :: unit option) pages \<and>
   file_bytes (snd (TemplateCopy literal_engine ''in/readme.txt'' ''out/readme.txt'' None None pages))
     ''out/readme.txt'' = Some ''read me'' \<and>
   HasSuffix ''in/page.html.tmpl'' ''.tmpl'' \<and>
   HasSuffix ''out/page.html.tmpl'' ''.tmpl'' \<and>
   TrimSuffix ''out/page.html.tmpl'' ''.tmpl'' = ''out/page.html'' \<and>
   os_Create (TrimSuffix ''in.tmpl'' ''.tmpl'') pages =
     (Inl EISDIR, log_call (EvCreate ''in'') pages) \<and>
   TemplateCopy literal_engine ''in/page.html.tmpl'' ''in.tmpl'' None None pages =
     (Some EISDIR, log_call (EvCreate ''in'') pages) \<and>
   os_Create (TrimSuffix ''out/page.html.tmpl'' ''.tmpl'') pages =
     (Inr [''out'', ''page.html''],
      put [''out'', ''page.html''] (File 438 []) (log_call (EvCreate ''out/page.html'') pages)) \<and>
   ParseFiles literal_engine ''in/page.html.tmpl''
      (put [''out'', ''page.html''] (File 438 []) (log_call (EvCreate ''out/page.html'') pages)) =
     (Inr ''<p>hi</p>'',
      log_call (EvParseFiles ''in/page.html.tmpl'')
        (put [''out'', ''page.html''] (File 438 []) (log_call (EvCreate ''out/page.html'') pages))) \<and>
   (\<exists>w'. TemplateCopy literal_engine ''in/page.html.tmpl'' ''out/page.html.tmpl'' None None pages =
            (None, w') \<and>
         file_bytes w' ''out/page.html'' = Some ''<p>hi</p>'') \<and>
   ParseFiles literal_engine ''in/bad.tmpl''
      (put [''out'', ''page.html''] (File 438 []) (log_call (EvCreate ''out/page.html'') pages)) =
     (Inl (ParseError ''{{''),
      log_call (EvParseFiles ''in/bad.tmpl'')
        (put [''out'', ''page.html''] (File 438 []) (log_call (EvCreate ''out/page.html'') pages))) \<and>
   fst (TemplateCopy literal_engine ''in/bad.tmpl'' ''out/page.html.tmpl'' None None pages) =
     Some (ParseError ''{{'')"
proof -
  let ?w1 = "put [''out'', ''page.html''] (File 438 []) (log_call (EvCreate ''out/page.html'') pages)"
  let ?w2 = "log_call (EvParseFiles ''in/page.html.tmpl'') ?w1"
  let ?w3 = "log_call (EvParseFiles ''in/bad.tmpl'') ?w1"
  have n: "\<not> HasSuffix ''in/readme.txt'' ''.tmpl''"
    by code_simp
  have s: "HasSuffix ''in/page.html.tmpl'' ''.tmpl''" "HasSuffix ''out/page.html.tmpl'' ''.tmpl''"
    "HasSuffix ''in/bad.tmpl'' ''.tmpl''"
    by code_simp+
  have t: "TrimSuffix ''out/page.html.tmpl'' ''.tmpl'' = ''out/page.html''"
    by code_simp
  have b: "file_bytes (snd (ColdCopy ''in/readme.txt'' ''out/readme.txt'' None
             (None :: unit option) pages)) ''out/readme.txt'' = Some ''read me''"
    by code_simp
  have e: "os_Create (TrimSuffix ''in.tmpl'' ''.tmpl'') pages =
             (Inl EISDIR, log_call (EvCreate ''in'') pages)"
    by code_simp
  have c: "os_Create (TrimSuffix ''out/page.html.tmpl'' ''.tmpl'') pages =
             (Inr [''out'', ''page.html''], ?w1)"
    by code_simp
  have p: "ParseFiles literal_engine ''in/page.html.tmpl'' ?w1 = (Inr ''<p>hi</p>'', ?w2)"
    by code_simp
  have q: "ParseFiles literal_engine ''in/bad.tmpl'' ?w1 = (Inl (ParseError ''{{''), ?w3)"
    by code_simp
  have x: "execute literal_engine ''<p>hi</p>'' None = (''<p>hi</p>'', None)"
    by (simp add: literal_engine_def)
  note d1 = TemplateCopy_dispatch [where eng = literal_engine and source = "''in/readme.txt''"
      and target = "''out/readme.txt''" and fi = None and data = None and w = pages]
  note d2 = TemplateCopy_dispatch [where eng = literal_engine and source = "''in/page.html.tmpl''"
      and target = "''in.tmpl''" and fi = None and data = None and w = pages]
  note d3 = TemplateCopy_dispatch [where eng = literal_engine and source = "''in/page.html.tmpl''"
      and target = "''out/page.html.tmpl''" and fi = None and data = None and w = pages]
  note d4 = TemplateCopy_dispatch [where eng = literal_engine and source = "''in/bad.tmpl''"
      and target = "''out/page.html.tmpl''" and fi = None and data = None and w = pages]
  from d1 n have r1: "TemplateCopy literal_engine ''in/readme.txt'' ''out/readme.txt'' None None pages =
      ColdCopy ''in/readme.txt'' ''out/readme.txt'' None (None :: unit option) pages"
    by blast
  from d2 s e have r2: "TemplateCopy literal_engine ''in/page.html.tmpl'' ''in.tmpl'' None None pages =
      (Some EISDIR, log_call (EvCreate ''in'') pages)"
    by blast
  from d3 s c p have "\<exists>w'. TemplateCopy literal_engine ''in/page.html.tmpl'' ''out/page.html.tmpl''
        None None pages = (snd (execute literal_engine ''<p>hi</p>'' None), w') \<and>
      file_bytes w' (TrimSuffix ''out/page.html.tmpl'' ''.tmpl'') =
        Some (fst (execute literal_engine ''<p>hi</p>'' None))"
    by blast
  with x t have r3: "\<exists>w'. TemplateCopy literal_engine ''in/page.html.tmpl'' ''out/page.html.tmpl''
        None None pages = (None, w') \<and> file_bytes w' ''out/page.html'' = Some ''<p>hi</p>''"
    by simp
  from d4 s c q have r4: "TemplateCopy literal_engine ''in/bad.tmpl'' ''out/page.html.tmpl''
        None None pages = (Some (ParseError ''{{''), ?w3)"
    by blast
  from n s t b e c p q r1 r2 r3 r4 show ?thesis by simp
qed

text \<open>
  C7. When \<open>ExcludeFile\<close> returns true for the entry, \<open>CopyFile\<close> returns success and leaves
  the world as it was: the copy strategy is not called and no file is created or changed.
  When it returns false, \<open>CopyFile\<close> is one call of the copy strategy, on the source root
  joined with the subpath, the target root joined with the subpath, the entry's metadata
  and the configured user data.
\<close>

theorem CopyFile_exclusion:
  "(ExcludeFile t fi \<longrightarrow> CopyFile t subpath fi w = (None, w)) \<and>
   (\<not> ExcludeFile t fi \<longrightarrow>
      CopyFile t subpath fi w =
        CopyFunc t (Join [Source t, subpath]) (Join [Target t, subpath]) fi (CopyData t) w)"
  by (simp add: CopyFile_def)

theorem CopyFile_exclusion_witness:
  "ExcludeFile (plain\<lparr>ExcludeFile := (\<lambda>fi. True)\<rparr>)
     (Some \<lparr>Name = ''b'', IsDir = False, Size = 1, Mode = 420\<rparr>) \<and>
   CopyFile (plain\<lparr>ExcludeFile := (\<lambda>fi. True)\<rparr>) ''b''
     (Some \<lparr>Name = ''b'', IsDir = False, Size = 1, Mode = 420\<rparr>) site = (None, site) \<and>
   \<not> ExcludeFile plain (Some \<lparr>Name = ''b'', IsDir = False, Size = 1, Mode = 420\<rparr>) \<and>
   CopyFile plain ''b'' (Some \<lparr>Name = ''b'', IsDir = False, Size = 1, Mode = 420\<rparr>) site =
     ColdCopy ''src/b'' ''out/b'' (Some \<lparr>Name = ''b'', IsDir = False, Size = 1, Mode = 420\<rparr>)
       (None :: unit option) site"
proof -
  let ?fi = "Some \<lparr>Name = ''b'', IsDir = False, Size = 1, Mode = 420\<rparr>"
  have j: "Join [Source plain, ''b''] = ''src/b''" "Join [Target plain, ''b''] = ''out/b''"
    by code_simp+
  have p: "CopyFunc plain = ColdCopy" "CopyData plain = None" "\<not> ExcludeFile plain ?fi"
    by (simp_all add: plain_def New_def ExcludeNone_def)
  from CopyFile_exclusion [of "plain\<lparr>ExcludeFile := (\<lambda>fi. True)\<rparr>" ?fi "''b''" site]
       CopyFile_exclusion [of plain ?fi "''b''" site] j p
  show ?thesis by simp
qed

text \<open>
  C8. When listing the source directory fails, \<open>CopyDir\<close> returns that error, the file
  system is as before, and the only calls made are the open and possibly the listing: no
  directory is created and no child is processed. When the listing succeeds, \<open>os.Mkdir\<close> on
  the target directory is the next call, and the children are processed only after it, in
  the world it leaves, and only when it succeeded or failed with an already-exists error.
  In that world the target is a directory exactly when the call succeeded or the target
  was a directory before. With a copy strategy that only adds to the log, every call made
  for a child comes after the call of \<open>os.Mkdir\<close>; with one that opens its source first,
  every listed directory and every listed file that is not excluded is opened there.
\<close>

theorem CopyDir_creates_before_children:
  "(\<forall>err w1. GetChildren (Join [Source t, subpath]) w = (Inl err, w1) \<longrightarrow>
      CopyDir (Suc n) t subpath w = Some (Some err, w1) \<and>
      files w1 = files w \<and>
      (log w1 = log w @ [EvOpen (Join [Source t, subpath])] \<or>
       log w1 = log w @ [EvOpen (Join [Source t, subpath]),
                         EvReaddir (resolve (Join [Source t, subpath]))])) \<and>
   (\<forall>children w1. GetChildren (Join [Source t, subpath]) w = (Inr children, w1) \<longrightarrow>
      (\<exists>err w2. os_Mkdir (Join [Target t, subpath]) (DirMode t) w1 = (err, w2) \<and>
         log w2 = log w @ [EvOpen (Join [Source t, subpath]),
                           EvReaddir (resolve (Join [Source t, subpath])),
                           EvMkdir (Join [Target t, subpath]) (DirMode t)] \<and>
         (err = None \<longrightarrow> is_dir w2 (Join [Target t, subpath])) \<and>
         (is_dir w2 (Join [Target t, subpath]) \<longleftrightarrow>
            err = None \<or> is_dir w (Join [Target t, subpath])) \<and>
         CopyDir (Suc n) t subpath w =
           (if err \<noteq> None \<and> \<not> IsExist (the err) then Some (err, w2)
            else map_option (Pair None) (CopyChildren (CopyDir n t) t subpath children w2)) \<and>
         (appends_only (CopyFunc t) \<longrightarrow>
            (\<forall>r w'. CopyDir (Suc n) t subpath w = Some (r, w') \<longrightarrow>
               (\<exists>es. log w' = log w2 @ es))) \<and>
         (announces (CopyFunc t) \<and> (err = None \<or> IsExist (the err)) \<longrightarrow>
            (\<forall>r w'. CopyDir (Suc n) t subpath w = Some (r, w') \<longrightarrow>
               (\<exists>es. log w' = log w2 @ es \<and>
                  (\<forall>c \<in> set children. IsDir c \<or> \<not> ExcludeFile t (Some c) \<longrightarrow>
                     EvOpen (Join [Source t, Join [subpath, Name c]]) \<in> set es))))))"
proof (intro conjI allI impI)
  fix err w1
  assume g: "GetChildren (Join [Source t, subpath]) w = (Inl err, w1)"
  then show "CopyDir (Suc n) t subpath w = Some (Some err, w1)" by simp
  from GetChildren_Inl [OF g] show "files w1 = files w"
    by (auto simp: files_log_call)
  from GetChildren_Inl [OF g]
  show "log w1 = log w @ [EvOpen (Join [Source t, subpath])] \<or>
        log w1 = log w @ [EvOpen (Join [Source t, subpath]),
                          EvReaddir (resolve (Join [Source t, subpath]))]"
    by (auto simp: log_log_call)
next
  fix children w1
  let ?src = "Join [Source t, subpath]"
  let ?tgt = "Join [Target t, subpath]"
  assume g: "GetChildren ?src w = (Inr children, w1)"
  obtain err w2 where m: "os_Mkdir ?tgt (DirMode t) w1 = (err, w2)"
    by (cases "os_Mkdir ?tgt (DirMode t) w1")
  have l1: "log w1 = log w @ [EvOpen ?src, EvReaddir (resolve ?src)]"
    using GetChildren_Inr [OF g] by (simp add: log_log_call)
  have l2: "log w2 = log w @ [EvOpen ?src, EvReaddir (resolve ?src), EvMkdir ?tgt (DirMode t)]"
    using os_Mkdir_log [of ?tgt "DirMode t" w1] m l1 by simp
  have "is_dir w1 ?tgt = is_dir w ?tgt"
    using GetChildren_Inr [OF g] by (simp add: is_dir_def lookup_log_call)
  with os_Mkdir_is_dir [OF m]
  have d': "is_dir w2 ?tgt \<longleftrightarrow> err = None \<or> is_dir w ?tgt" by simp
  then have d: "err = None \<longrightarrow> is_dir w2 ?tgt" by simp
  have eq: "CopyDir (Suc n) t subpath w =
           (if err \<noteq> None \<and> \<not> IsExist (the err) then Some (err, w2)
            else map_option (Pair None) (CopyChildren (CopyDir n t) t subpath children w2))"
    using g m by (simp add: map_option_case)
  have a: "\<exists>es. log w' = log w2 @ es"
    if f: "appends_only (CopyFunc t)" and r: "CopyDir (Suc n) t subpath w = Some (r, w')"
    for r w'
  proof (cases "err \<noteq> None \<and> \<not> IsExist (the err)")
    case True
    with eq r show ?thesis by simp
  next
    case False
    with eq r have c: "CopyChildren (CopyDir n t) t subpath children w2 = Some w'"
      by auto
    show ?thesis
    proof (rule CopyChildren_log [OF f _ c])
      fix p w r w'
      assume "CopyDir n t p w = Some (r, w')"
      from CopyDir_log [OF f this] show "\<exists>es. log w' = log w @ es" by auto
    qed
  qed
  have b: "\<exists>es. log w' = log w2 @ es \<and>
             (\<forall>c \<in> set children. IsDir c \<or> \<not> ExcludeFile t (Some c) \<longrightarrow>
                EvOpen (Join [Source t, Join [subpath, Name c]]) \<in> set es)"
    if f: "announces (CopyFunc t)" and e: "err = None \<or> IsExist (the err)"
      and r: "CopyDir (Suc n) t subpath w = Some (r, w')"
    for r w'
  proof -
    from e eq r have "CopyChildren (CopyDir n t) t subpath children w2 = Some w'"
      by auto
    from CopyDir_children_visited [OF f this] show ?thesis .
  qed
  from m l2 d d' eq a b
  show "\<exists>err w2. os_Mkdir ?tgt (DirMode t) w1 = (err, w2) \<and>
         log w2 = log w @ [EvOpen ?src, EvReaddir (resolve ?src), EvMkdir ?tgt (DirMode t)] \<and>
         (err = None \<longrightarrow> is_dir w2 ?tgt) \<and>
         (is_dir w2 ?tgt \<longleftrightarrow> err = None \<or> is_dir w ?tgt) \<and>
         CopyDir (Suc n) t subpath w =
           (if err \<noteq> None \<and> \<not> IsExist (the err) then Some (err, w2)
            else map_option (Pair None) (CopyChildren (CopyDir n t) t subpath children w2)) \<and>
         (appends_only (CopyFunc t) \<longrightarrow>
            (\<forall>r w'. CopyDir (Suc n) t subpath w = Some (r, w') \<longrightarrow>
               (\<exists>es. log w' = log w2 @ es))) \<and>
         (announces (CopyFunc t) \<and> (err = None \<or> IsExist (the err)) \<longrightarrow>
            (\<forall>r w'. CopyDir (Suc n) t subpath w = Some (r, w') \<longrightarrow>
               (\<exists>es. log w' = log w2 @ es \<and>
                  (\<forall>c \<in> set children. IsDir c \<or> \<not> ExcludeFile t (Some c) \<longrightarrow>
                     EvOpen (Join [Source t, Join [subpath, Name c]]) \<in> set es))))"
    by blast
qed

theorem CopyDir_creates_before_children_witness:
  "GetChildren (Join [Source (plain\<lparr>Source := ''nowhere''\<rparr>), '''']) site =
     (Inl ENOENT, log_call (EvOpen ''nowhere'') site) \<and>
   CopyDir 1 (plain\<lparr>Source := ''nowhere''\<rparr>) '''' site =
     Some (Some ENOENT, log_call (EvOpen ''nowhere'') site) \<and>
   files (log_call (EvOpen ''nowhere'') site) = files site \<and>
   GetChildren (Join [Source plain, '''']) site =
     (Inr (entries site [''src'']),
      log_call (EvReaddir [''src'']) (log_call (EvOpen ''src'') site)) \<and>
   appends_only (CopyFunc plain) \<and> announces (CopyFunc plain) \<and>
   CopyDir 2 plain '''' site = Some (None, site_mirrored) \<and>
   \<lparr>Name = ''b'', IsDir = False, Size = 1, Mode = 420\<rparr> \<in> set (entries site [''src'']) \<and>
   (\<exists>w2. os_Mkdir (Join [Target plain, '''']) (DirMode plain)
            (log_call (EvReaddir [''src'']) (log_call (EvOpen ''src'') site)) = (None, w2) \<and>
         log w2 = [EvOpen ''src'', EvReaddir [''src''], EvMkdir ''out'' 493] \<and>
         is_dir w2 ''out'' \<and>
         (\<exists>es. log site_mirrored = log w2 @ es \<and> EvOpen ''src/b'' \<in> set es)) \<and>
   GetChildren (Join [Source plain, '''']) site_blocked =
     (Inr (entries site_blocked [''src'']),
      log_call (EvReaddir [''src'']) (log_call (EvOpen ''src'') site_blocked)) \<and>
   CopyDir 2 plain '''' site_blocked = Some (None, site_blocked_walked) \<and>
   \<not> is_dir site_blocked ''out'' \<and>
   \<lparr>Name = ''b'', IsDir = False, Size = 1, Mode = 420\<rparr> \<in> set (entries site_blocked [''src'']) \<and>
   (\<exists>w2. os_Mkdir (Join [Target plain, '''']) (DirMode plain)
            (log_call (EvReaddir [''src'']) (log_call (EvOpen ''src'') site_blocked)) =
            (Some EEXIST, w2) \<and>
         log w2 = [EvOpen ''src'', EvReaddir [''src''], EvMkdir ''out'' 493] \<and>
         \<not> is_dir w2 ''out'' \<and>
         (\<exists>es. log site_blocked_walked = log w2 @ es \<and> EvOpen ''src/b'' \<in> set es))"
proof -
  let ?t = "plain\<lparr>Source := ''nowhere''\<rparr>"
  let ?w1 = "log_call (EvReaddir [''src'']) (log_call (EvOpen ''src'') site)"
  let ?b1 = "log_call (EvReaddir [''src'']) (log_call (EvOpen ''src'') site_blocked)"
  let ?b = "\<lparr>Name = ''b'', IsDir = False, Size = 1, Mode = 420\<rparr>"
  have g0: "GetChildren (Join [Source ?t, '''']) site = (Inl ENOENT, log_call (EvOpen ''nowhere'') site)"
    by code_simp
  have g: "GetChildren (Join [Source plain, '''']) site = (Inr (entries site [''src'']), ?w1)"
    by code_simp
  have gb: "GetChildren (Join [Source plain, '''']) site_blocked =
              (Inr (entries site_blocked [''src'']), ?b1)"
    by code_simp
  have n: "announces (CopyFunc plain)"
    by (simp add: plain_def New_def announces_ColdCopy)
  have a: "appends_only (CopyFunc plain)"
    by (rule announces_appends_only [OF n])
  have r: "CopyDir 2 plain '''' site = Some (None, site_mirrored)"
    by code_simp
  have rb: "CopyDir 2 plain '''' site_blocked = Some (None, site_blocked_walked)"
    by code_simp
  have m: "fst (os_Mkdir (Join [Target plain, '''']) (DirMode plain) ?w1) = None"
    by code_simp
  have mb: "fst (os_Mkdir (Join [Target plain, '''']) (DirMode plain) ?b1) = Some EEXIST"
    by code_simp
  have j: "Join [Source plain, ''''] = ''src''" "Join [Target plain, ''''] = ''out''"
    "resolve ''src'' = [''src'']" "DirMode plain = 493" "log site = []" "log site_blocked = []"
    by code_simp+
  have jb: "Join [Source plain, Join ['''', Name ?b]] = ''src/b''"
    by code_simp
  have c: "?b \<in> set (entries site [''src''])" "?b \<in> set (entries site_blocked [''src''])"
    by code_simp+
  have x: "\<not> ExcludeFile plain (Some ?b)" "IsExist EEXIST"
    by (simp_all add: plain_def New_def ExcludeNone_def IsExist_def)
  have i: "\<not> is_dir site_blocked ''out''"
    by code_simp
  have r2: "CopyDir (Suc 1) plain '''' site = Some (None, site_mirrored)"
    "CopyDir (Suc 1) plain '''' site_blocked = Some (None, site_blocked_walked)"
    using r rb by (simp_all only: numeral_2_eq_2 One_nat_def)
  from CopyDir_creates_before_children [of ?t "''''" site 0] g0
  have r0: "CopyDir 1 ?t '''' site = Some (Some ENOENT, log_call (EvOpen ''nowhere'') site)"
           "files (log_call (EvOpen ''nowhere'') site) = files site"
    by (simp_all del: CopyDir.simps)
  from CopyDir_creates_before_children [of plain "''''" site 1] g
  obtain err w2 where
    1: "os_Mkdir (Join [Target plain, '''']) (DirMode plain) ?w1 = (err, w2)" and
    2: "log w2 = log site @ [EvOpen (Join [Source plain, '''']),
                            EvReaddir (resolve (Join [Source plain, ''''])),
                            EvMkdir (Join [Target plain, '''']) (DirMode plain)]" and
    3: "is_dir w2 (Join [Target plain, '''']) \<longleftrightarrow>
          err = None \<or> is_dir site (Join [Target plain, ''''])" and
    4: "announces (CopyFunc plain) \<and> (err = None \<or> IsExist (the err)) \<longrightarrow>
          (\<forall>r w'. CopyDir (Suc 1) plain '''' site = Some (r, w') \<longrightarrow>
             (\<exists>es. log w' = log w2 @ es \<and>
                (\<forall>c \<in> set (entries site [''src'']). IsDir c \<or> \<not> ExcludeFile plain (Some c) \<longrightarrow>
                   EvOpen (Join [Source plain, Join ['''', Name c]]) \<in> set es)))"
    by blast
  from 1 m have e: "err = None" by simp
  from 4 n e r2(1) obtain es where
    es: "log site_mirrored = log w2 @ es" and
    v: "\<forall>c \<in> set (entries site [''src'']). IsDir c \<or> \<not> ExcludeFile plain (Some c) \<longrightarrow>
          EvOpen (Join [Source plain, Join ['''', Name c]]) \<in> set es"
    by blast
  from bspec [OF v c(1)] x(1) have "EvOpen (Join [Source plain, Join ['''', Name ?b]]) \<in> set es"
    by blast
  then have "EvOpen ''src/b'' \<in> set es" unfolding jb .
  with es have 5: "\<exists>es. log site_mirrored = log w2 @ es \<and> EvOpen ''src/b'' \<in> set es"
    by blast
  from 1 2 3 5 e j
  have A: "\<exists>w2. os_Mkdir (Join [Target plain, '''']) (DirMode plain) ?w1 = (None, w2) \<and>
         log w2 = [EvOpen ''src'', EvReaddir [''src''], EvMkdir ''out'' 493] \<and>
         is_dir w2 ''out'' \<and>
         (\<exists>es. log site_mirrored = log w2 @ es \<and> EvOpen ''src/b'' \<in> set es)"
    by (intro exI [of _ w2]) simp
  from CopyDir_creates_before_children [of plain "''''" site_blocked 1] gb
  obtain errb b2 where
    b1: "os_Mkdir (Join [Target plain, '''']) (DirMode plain) ?b1 = (errb, b2)" and
    b2: "log b2 = log site_blocked @ [EvOpen (Join [Source plain, '''']),
                            EvReaddir (resolve (Join [Source plain, ''''])),
                            EvMkdir (Join [Target plain, '''']) (DirMode plain)]" and
    b3: "is_dir b2 (Join [Target plain, '''']) \<longleftrightarrow>
          errb = None \<or> is_dir site_blocked (Join [Target plain, ''''])" and
    b4: "announces (CopyFunc plain) \<and> (errb = None \<or> IsExist (the errb)) \<longrightarrow>
          (\<forall>r w'. CopyDir (Suc 1) plain '''' site_blocked = Some (r, w') \<longrightarrow>
             (\<exists>es. log w' = log b2 @ es \<and>
                (\<forall>c \<in> set (entries site_blocked [''src'']).
                   IsDir c \<or> \<not> ExcludeFile plain (Some c) \<longrightarrow>
                   EvOpen (Join [Source plain, Join ['''', Name c]]) \<in> set es)))"
    by blast
  from b1 mb have eb: "errb = Some EEXIST" by simp
  from b4 n eb x(2) r2(2) obtain es' where
    es': "log site_blocked_walked = log b2 @ es'" and
    v': "\<forall>c \<in> set (entries site_blocked [''src'']). IsDir c \<or> \<not> ExcludeFile plain (Some c) \<longrightarrow>
          EvOpen (Join [Source plain, Join ['''', Name c]]) \<in> set es'"
    by auto
  from bspec [OF v' c(2)] x(1) have "EvOpen (Join [Source plain, Join ['''', Name ?b]]) \<in> set es'"
    by blast
  then have "EvOpen ''src/b'' \<in> set es'" unfolding jb .
  with es' have b5: "\<exists>es. log site_blocked_walked = log b2 @ es \<and> EvOpen ''src/b'' \<in> set es"
    by blast
  from b3 eb i j have b6: "\<not> is_dir b2 ''out''" by simp
  from b1 b2 b5 b6 eb j
  have B: "\<exists>w2. os_Mkdir (Join [Target plain, '''']) (DirMode plain) ?b1 = (Some EEXIST, w2) \<and>
         log w2 = [EvOpen ''src'', EvReaddir [''src''], EvMkdir ''out'' 493] \<and>
         \<not> is_dir w2 ''out'' \<and>
         (\<exists>es. log site_blocked_walked = log w2 @ es \<and> EvOpen ''src/b'' \<in> set es)"
    by (intro exI [of _ b2]) simp
  from g0 r0 g a n r c A gb rb i B show ?thesis by blast
qed

text \<open>
  C8 as stated fails where a regular file has the name of the target directory. In
  \<open>site_blocked\<close> the call of \<open>os.Mkdir\<close> fails with \<open>EEXIST\<close>, which is tolerated: the three
  children of \<open>src\<close> are processed, and \<open>out\<close> is a directory neither when the first of
  them is processed nor at the end.
\<close>

theorem CopyDir_children_without_target_directory:
  "\<not> is_dir site_blocked ''out'' \<and>
   CopyDir 2 plain '''' site_blocked = Some (None, site_blocked_walked) \<and>
   log site_blocked_walked =
     [EvOpen ''src'', EvReaddir [''src''], EvMkdir ''out'' 493,
      EvOpen ''src/a'',
      EvOpen ''src/b'', EvCreate ''out/b'',
      EvOpen ''src/d'', EvReaddir [''src'', ''d''], EvMkdir ''out/d'' 493] \<and>
   \<not> is_dir (snd (os_Mkdir ''out'' 493 (snd (GetChildren ''src'' site_blocked)))) ''out'' \<and>
   \<not> is_dir site_blocked_walked ''out''"
  by code_simp

text \<open>
  C9. \<open>New\<close> returns a configuration whose roots are the cleaned arguments (not empty,
  and naming the same nodes as the arguments), whose two exclusion predicates are
  \<open>ExcludeNone\<close>, which is false of every metadata value, whose directory mode is 0755
  and whose copy strategy is \<open>ColdCopy\<close>.
\<close>

theorem New_defaults:
  "Source (New source target :: 'd Translator) = Clean source \<and>
   Target (New source target :: 'd Translator) = Clean target \<and>
   Source (New source target :: 'd Translator) \<noteq> [] \<and>
   Target (New source target :: 'd Translator) \<noteq> [] \<and>
   resolve (Source (New source target :: 'd Translator)) = resolve source \<and>
   resolve (Target (New source target :: 'd Translator)) = resolve target \<and>
   ExcludeDir (New source target :: 'd Translator) = ExcludeNone \<and>
   ExcludeFile (New source target :: 'd Translator) = ExcludeNone \<and>
   (\<forall>fi. \<not> ExcludeNone fi) \<and>
   DirMode (New source target :: 'd Translator) = 7 * 64 + 5 * 8 + 5 \<and>
   CopyFunc (New source target :: 'd Translator) = ColdCopy \<and>
   CopyData (New source target :: 'd Translator) = None"
  by (simp add: New_def ExcludeNone_def Clean_not_Nil resolve_Clean)

theorem New_defaults_witness:
  "Source (New ''./src//'' ''out/../site/'' :: unit Translator) = ''src'' \<and>
   Target (New ''./src//'' ''out/../site/'' :: unit Translator) = ''site'' \<and>
   \<not> ExcludeDir (New ''./src//'' ''out/../site/'' :: unit Translator)
       (Some \<lparr>Name = ''d'', IsDir = True, Size = 0, Mode = 493\<rparr>) \<and>
   DirMode (New ''./src//'' ''out/../site/'' :: unit Translator) = 493"
proof -
  have c: "Clean ''./src//'' = ''src''" "Clean ''out/../site/'' = ''site''"
    by code_simp+
  from New_defaults [of "''./src//''" "''out/../site/''", where 'd = unit] c
  show ?thesis by simp
qed

text \<open>
  C10. For a source that ends in \<open>.tmpl\<close>, \<open>TemplateCopy\<close> creates or truncates the trimmed
  target before it parses the source. When the parse fails, the parse error is returned
  and the target is left behind as an empty file, whatever it held before.
\<close>

theorem TemplateCopy_truncates_before_parsing:
  assumes "HasSuffix source ''.tmpl''"
      and "os_Create (TrimSuffix target ''.tmpl'') w = (Inr out_h, w1)"
      and "ParseFiles eng source w1 = (Inl err, w2)"
  shows "TemplateCopy eng source target fi data w = (Some err, w2) \<and>
         file_bytes w2 (TrimSuffix target ''.tmpl'') = Some [] \<and>
         log w2 = log w @ [EvCreate (TrimSuffix target ''.tmpl''), EvParseFiles source]"
proof -
  from os_Create_Inr [OF assms(2)] obtain m where
    h: "out_h = resolve (TrimSuffix target ''.tmpl'')" and
    w1: "w1 = put out_h (File m []) (log_call (EvCreate (TrimSuffix target ''.tmpl'')) w)"
    by auto
  from assms(3) have w2: "w2 = log_call (EvParseFiles source) w1"
    using ParseFiles_world [of eng source w1] by simp
  have "file_bytes w2 (TrimSuffix target ''.tmpl'') = Some []"
    by (simp add: file_bytes_def w2 w1 h lookup_log_call lookup_put)
  moreover have "log w2 = log w @ [EvCreate (TrimSuffix target ''.tmpl''), EvParseFiles source]"
    by (simp add: w2 w1 log_log_call log_put)
  moreover have "TemplateCopy eng source target fi data w = (Some err, w2)"
    using assms by (simp add: TemplateCopy_def)
  ultimately show ?thesis by simp
qed

theorem TemplateCopy_truncates_before_parsing_witness:
  "HasSuffix ''in/bad.tmpl'' ''.tmpl'' \<and>
   file_bytes pages ''out/bad'' = Some ''old'' \<and>
   os_Create (TrimSuffix ''out/bad.tmpl'' ''.tmpl'') pages =
     (Inr [''out'', ''bad''],
      put [''out'', ''bad''] (File 420 []) (log_call (EvCreate ''out/bad'') pages)) \<and>
   ParseFiles literal_engine ''in/bad.tmpl''
      (put [''out'', ''bad''] (File 420 []) (log_call (EvCreate ''out/bad'') pages)) =
     (Inl (ParseError ''{{''),
      log_call (EvParseFiles ''in/bad.tmpl'')
        (put [''out'', ''bad''] (File 420 []) (log_call (EvCreate ''out/bad'') pages))) \<and>
   TemplateCopy literal_engine ''in/bad.tmpl'' ''out/bad.tmpl'' None None pages =
     (Some (ParseError ''{{''),
      log_call (EvParseFiles ''in/bad.tmpl'')
        (put [''out'', ''bad''] (File 420 []) (log_call (EvCreate ''out/bad'') pages))) \<and>
   file_bytes
     (log_call (EvParseFiles ''in/bad.tmpl'')
        (put [''out'', ''bad''] (File 420 []) (log_call (EvCreate ''out/bad'') pages)))
     ''out/bad'' = Some []"
proof -
  let ?w1 = "put [''out'', ''bad''] (File 420 []) (log_call (EvCreate ''out/bad'') pages)"
  let ?w2 = "log_call (EvParseFiles ''in/bad.tmpl'') ?w1"
  have s: "HasSuffix ''in/bad.tmpl'' ''.tmpl''"
    by code_simp
  have t: "TrimSuffix ''out/bad.tmpl'' ''.tmpl'' = ''out/bad''"
    by code_simp
  have b: "file_bytes pages ''out/bad'' = Some ''old''"
    by code_simp
  have c: "os_Create (TrimSuffix ''out/bad.tmpl'' ''.tmpl'') pages = (Inr [''out'', ''bad''], ?w1)"
    by code_simp
  have p: "ParseFiles literal_engine ''in/bad.tmpl'' ?w1 = (Inl (ParseError ''{{''), ?w2)"
    by code_simp
  from TemplateCopy_truncates_before_parsing [OF s c p, where fi = None and data = None] s t b c p
  show ?thesis by simp
qed

end
